theory Spec2Isabelle
  imports Complex_Main "HOL-Library.AList"
begin

section \<open>JavaScript values\<close>

text \<open>
  A JavaScript string is a sequence of UTF-16 code units; \<open>length\<close>, \<open>slice\<close> and the
  regular expressions of the server count code units. \<open>str\<close> writes an ASCII literal.
\<close>

type_synonym jstring = "nat list"

definition str :: "string \<Rightarrow> jstring" where
  "str s = map of_char s"

text \<open>
  A JavaScript number is a double: a finite value (every finite double is a rational),
  an infinity or NaN. The server only floors and compares numbers, which is exact.
\<close>

datatype jsnum = Finite rat | PosInf | NegInf | NaN

text \<open>
  The value of a field of a parsed JSON message. \<open>JObject\<close> stands for any array or
  object, \<open>JUndefined\<close> for a field that is absent.
\<close>

datatype jsval = JUndefined | JNull | JBool bool | JNum jsnum | JStr jstring | JObject

fun truthy :: "jsval \<Rightarrow> bool" where
  "truthy JUndefined = False"
| "truthy JNull = False"
| "truthy (JBool b) = b"
| "truthy (JNum n) = (n \<noteq> NaN \<and> n \<noteq> Finite 0)"
| "truthy (JStr s) = (s \<noteq> [])"
| "truthy JObject = True"

text \<open>\<open>a || b\<close>\<close>

definition js_or :: "jsval \<Rightarrow> jsval \<Rightarrow> jsval" where
  "js_or a b = (if truthy a then a else b)"

text \<open>\<open>x || 0\<close> on a number: NaN and zero are falsy.\<close>

definition or0 :: "jsnum \<Rightarrow> jsnum" where
  "or0 x = (if x \<noteq> NaN \<and> x \<noteq> Finite 0 then x else Finite 0)"

fun Math_floor :: "jsnum \<Rightarrow> jsnum" where
  "Math_floor (Finite q) = Finite (of_int \<lfloor>q\<rfloor>)"
| "Math_floor x = x"

text \<open>The comparisons \<open>a <= q\<close>, \<open>a > q\<close> and \<open>a >= q\<close> against a numeric literal.\<close>

fun num_le :: "jsnum \<Rightarrow> rat \<Rightarrow> bool" where
  "num_le (Finite x) q = (x \<le> q)"
| "num_le NegInf q = True"
| "num_le PosInf q = False"
| "num_le NaN q = False"

fun num_gt :: "jsnum \<Rightarrow> rat \<Rightarrow> bool" where
  "num_gt (Finite x) q = (x > q)"
| "num_gt PosInf q = True"
| "num_gt NegInf q = False"
| "num_gt NaN q = False"

fun num_ge :: "jsnum \<Rightarrow> rat \<Rightarrow> bool" where
  "num_ge (Finite x) q = (x \<ge> q)"
| "num_ge PosInf q = True"
| "num_ge NegInf q = False"
| "num_ge NaN q = False"

subsection \<open>String operations of the runtime\<close>

text \<open>
  The code units that \<open>trim\<close> and the regular expression class \<open>\s\<close> treat as white
  space: TAB, LF, VT, FF, CR, SP, NBSP, U+1680, U+2000 to U+200A, U+2028, U+2029, U+202F,
  U+205F, U+3000 and U+FEFF.
\<close>

definition isWhiteSpace :: "nat \<Rightarrow> bool" where
  "isWhiteSpace c =
     (c = 9 \<or> c = 10 \<or> c = 11 \<or> c = 12 \<or> c = 13 \<or> c = 32 \<or> c = 160 \<or> c = 5760
      \<or> (8192 \<le> c \<and> c \<le> 8202) \<or> c = 8232 \<or> c = 8233 \<or> c = 8239 \<or> c = 8287
      \<or> c = 12288 \<or> c = 65279)"

definition trim :: "jstring \<Rightarrow> jstring" where
  "trim s = rev (dropWhile isWhiteSpace (rev (dropWhile isWhiteSpace s)))"

text \<open>\<open>s.slice(0, n)\<close>\<close>

definition slice0 :: "jstring \<Rightarrow> nat \<Rightarrow> jstring" where
  "slice0 s n = take n s"

text \<open>\<open>s.replace(/c/g, r)\<close> for a single code unit \<open>c\<close>.\<close>

definition replace_all :: "nat \<Rightarrow> jstring \<Rightarrow> jstring \<Rightarrow> jstring" where
  "replace_all c r s = concat (map (\<lambda>x. if x = c then r else [x]) s)"

text \<open>
  \<open>s.toLowerCase()\<close> maps a string by the case tables of the runtime's Unicode data,
  which are no part of the server; a result can differ from its argument in length.
  Every definition that lower-cases takes the runtime's function as its parameter
  \<open>lc\<close>, and what is proved of it holds for every function.
\<close>

type_synonym lowercase = "jstring \<Rightarrow> jstring"

fun startsWith :: "jstring \<Rightarrow> jstring \<Rightarrow> bool" where
  "startsWith s [] = True"
| "startsWith [] (b # bs) = False"
| "startsWith (c # cs) (b # bs) = (c = b \<and> startsWith cs bs)"

text \<open>\<open>s.includes(b)\<close>\<close>

fun includes_str :: "jstring \<Rightarrow> jstring \<Rightarrow> bool" where
  "includes_str [] b = (b = [])"
| "includes_str (c # cs) b = (startsWith (c # cs) b \<or> includes_str cs b)"

section \<open>The in-memory store\<close>

type_synonym ws = nat
type_synonym uuid = nat

datatype ready_state = CONNECTING | OPEN | CLOSING | CLOSED

text \<open>The value of the map \<open>clients\<close>; \<open>id'\<close> is the field \<open>id\<close>, \<open>None\<close> is \<open>null\<close>.\<close>

record client =
  id' :: uuid
  nickname :: "jstring option"
  ip :: jstring
  registered :: bool

text \<open>The texts of the replies and of the system messages, by what they say.\<close>

datatype message =
    MinTwoChars | MaxTwentyFourChars | NickTaken | NickForbidden | LoginFirst | TooManyMessages

datatype sys_text =
    Joined jstring
  | BigWin "jstring option" jsnum jstring
  | LeftCasino jstring

text \<open>The outbound frames, by their \<open>type\<close> field.\<close>

datatype frame =
    Init uuid "frame list" "frame list" nat
  | Register_ok jstring uuid
  | Register_error message
  | Chat uuid uuid "jstring option" jstring jstring
  | Win uuid "jstring option" jsnum jstring jstring
  | System_message sys_text jstring
  | Online_count nat
  | Pong
  | Error message

text \<open>What a handler does to sockets: \<open>ws.send(frame)\<close> and \<open>ws.close(code, reason)\<close>.\<close>

datatype action = Send ws frame | Close ws nat jstring

text \<open>An entry of \<open>rateLimits\<close>: the fields \<open>count\<close> and \<open>t\<close>.\<close>

record rl =
  rl_count :: int
  rl_t :: int

record state =
  wss_clients :: "ws list"
  readyState :: "ws \<Rightarrow> ready_state"
  clients :: "(ws \<times> client) list"
  chatHistory :: "frame list"
  winHistory :: "frame list"
  rateLimits :: "uuid \<rightharpoonup> rl"
  broadcastTimer :: bool

definition MAX_CHAT :: nat where "MAX_CHAT = 40"
definition MAX_WINS :: nat where "MAX_WINS = 50"
definition RL_WINDOW :: int where "RL_WINDOW = 10000"
definition RL_MAX_CHAT :: int where "RL_MAX_CHAT = 6"
definition MAX_CLIENTS :: nat where "MAX_CLIENTS = 500"

section \<open>Helpers\<close>

definition pushBounded :: "'a list \<Rightarrow> 'a \<Rightarrow> nat \<Rightarrow> 'a list" where
  "pushBounded arr item mx =
     (let arr1 = arr @ [item] in if length arr1 > mx then tl arr1 else arr1)"

text \<open>The buffer after a sequence of appends to an empty buffer of capacity \<open>C\<close>.\<close>

definition appends :: "nat \<Rightarrow> 'a list \<Rightarrow> 'a list" where
  "appends C items = foldl (\<lambda>arr item. pushBounded arr item C) [] items"

definition sendTo :: "state \<Rightarrow> ws \<Rightarrow> frame \<Rightarrow> action list" where
  "sendTo s w data = (if readyState s w \<noteq> OPEN then [] else [Send w data])"

definition broadcast :: "state \<Rightarrow> frame \<Rightarrow> ws option \<Rightarrow> action list" where
  "broadcast s data excludeWs =
     map (\<lambda>w. Send w data)
       (filter (\<lambda>w. Some w \<noteq> excludeWs \<and> readyState s w = OPEN) (wss_clients s))"

definition broadcastAll :: "state \<Rightarrow> frame \<Rightarrow> action list" where
  "broadcastAll s data = broadcast s data None"

definition scheduleOnlineBroadcast :: "state \<Rightarrow> state" where
  "scheduleOnlineBroadcast s = (if broadcastTimer s then s else s\<lparr>broadcastTimer := True\<rparr>)"

definition getOnlineCount :: "state \<Rightarrow> nat" where
  "getOnlineCount s = length (filter (\<lambda>w. readyState s w = OPEN) (wss_clients s))"

fun sanitize :: "jsval \<Rightarrow> nat \<Rightarrow> jstring" where
  "sanitize (JStr s) maxLen =
     replace_all 39 (str ''&#39;'') (replace_all 34 (str ''&quot;'')
       (replace_all 62 (str ''&gt;'') (replace_all 60 (str ''&lt;'')
         (slice0 (trim s) maxLen))))"
| "sanitize v maxLen = []"

text \<open>\<open>.replace(/[<>"'/\\`]/g, '')\<close>\<close>

definition stripped :: "nat \<Rightarrow> bool" where
  "stripped c = (c = 60 \<or> c = 62 \<or> c = 34 \<or> c = 39 \<or> c = 47 \<or> c = 92 \<or> c = 96)"

text \<open>\<open>.replace(/\s+/g, ' ')\<close>\<close>

function collapse :: "jstring \<Rightarrow> jstring" where
  "collapse [] = []"
| "collapse (c # cs) =
     (if isWhiteSpace c then 32 # collapse (dropWhile isWhiteSpace cs) else c # collapse cs)"
  by pat_completeness auto
termination
  by (relation "measure length") (auto simp: le_imp_less_Suc length_dropWhile_le)

fun sanitizeNick :: "jsval \<Rightarrow> jstring" where
  "sanitizeNick (JStr s) =
     trim (collapse (filter (\<lambda>c. \<not> stripped c) (slice0 (trim s) 24)))"
| "sanitizeNick v = []"

text \<open>The loop of \<open>isNickTaken\<close> over the entries of \<open>clients\<close>.\<close>

fun nickLoop :: "lowercase \<Rightarrow> (ws \<times> client) list \<Rightarrow> jstring \<Rightarrow> uuid \<Rightarrow> bool" where
  "nickLoop lc [] low excludeId = False"
| "nickLoop lc ((w, c) # cs) low excludeId =
     (if id' c \<noteq> excludeId
         \<and> (case nickname c of None \<Rightarrow> False | Some n \<Rightarrow> n \<noteq> [] \<and> lc n = low)
      then True else nickLoop lc cs low excludeId)"

definition isNickTaken :: "lowercase \<Rightarrow> state \<Rightarrow> jstring \<Rightarrow> uuid \<Rightarrow> bool" where
  "isNickTaken lc s nick excludeId = nickLoop lc (clients s) (lc nick) excludeId"

text \<open>admin, moderator, the Russian word for system, system, server, bot.\<close>

definition BAD_NICKS :: "jstring list" where
  "BAD_NICKS = [str ''admin'', str ''moderator'', [1089, 1080, 1089, 1090, 1077, 1084, 1072],
     str ''system'', str ''server'', str ''bot'']"

definition checkRate :: "(uuid \<rightharpoonup> rl) \<Rightarrow> int \<Rightarrow> uuid \<Rightarrow> bool \<times> (uuid \<rightharpoonup> rl)" where
  "checkRate limits now clientId =
     (let r = (case limits clientId of
                 None \<Rightarrow> \<lparr>rl_count = 0, rl_t = now\<rparr>
               | Some r0 \<Rightarrow> if now - rl_t r0 > RL_WINDOW then \<lparr>rl_count = 0, rl_t = now\<rparr> else r0);
          r1 = r\<lparr>rl_count := rl_count r + 1\<rparr>
      in (rl_count r1 \<le> RL_MAX_CHAT, limits(clientId \<mapsto> r1)))"

text \<open>Successive calls of \<open>checkRate\<close> for one session, at the given clock readings.\<close>

fun checkRates :: "(uuid \<rightharpoonup> rl) \<Rightarrow> uuid \<Rightarrow> int list \<Rightarrow> bool list \<times> (uuid \<rightharpoonup> rl)" where
  "checkRates limits clientId [] = ([], limits)"
| "checkRates limits clientId (now # ts) =
     (let (ok, limits1) = checkRate limits now clientId;
          (oks, limits2) = checkRates limits1 clientId ts
      in (ok # oks, limits2))"

text \<open>
  Escaping one code unit: what the four replacements of \<open>sanitize\<close>, applied in their
  order, make of it.
\<close>

definition escape_unit :: "nat \<Rightarrow> jstring" where
  "escape_unit c =
     (if c = 60 then str ''&lt;'' else if c = 62 then str ''&gt;''
      else if c = 34 then str ''&quot;'' else if c = 39 then str ''&#39;'' else [c])"

section \<open>Connection handler\<close>

text \<open>
  What the environment supplies to one run of a handler: the value of \<open>Date.now()\<close>,
  the result of \<open>uuidv4()\<close>, and the results of the first and the second call of
  \<open>formatTime()\<close>.
\<close>

record env =
  Date_now :: int
  uuidv4 :: uuid
  formatTime1 :: jstring
  formatTime2 :: jstring

text \<open>\<open>arr.slice(-n)\<close>\<close>

definition slice_last :: "'a list \<Rightarrow> nat \<Rightarrow> 'a list" where
  "slice_last arr n = drop (length arr - n) arr"

text \<open>\<open>ws.close(code, reason)\<close> moves an open socket to the closing state.\<close>

definition ws_close :: "state \<Rightarrow> ws \<Rightarrow> state" where
  "ws_close s w =
     (if readyState s w = OPEN then s\<lparr>readyState := (readyState s)(w := CLOSING)\<rparr> else s)"

text \<open>
  The listener of \<open>connection\<close>. The library has added \<open>ws\<close> to \<open>wss.clients\<close> before
  it runs, so \<open>wss.clients.size\<close> counts the new socket; \<open>ip\<close> is the address the
  listener reads from the request.
\<close>

definition on_connection :: "state \<Rightarrow> ws \<Rightarrow> env \<Rightarrow> jstring \<Rightarrow> state \<times> action list" where
  "on_connection s w e ip_addr =
     (if length (wss_clients s) > MAX_CLIENTS
      then (ws_close s w, [Close w 1013 (str ''Server full'')])
      else
        let clientId = uuidv4 e;
            s1 = s\<lparr>clients := AList.update w
                   \<lparr>id' = clientId, nickname = None, ip = ip_addr, registered = False\<rparr>
                   (clients s)\<rparr>;
            out = sendTo s1 w (Init clientId (slice_last (chatHistory s1) 25)
                    (slice_last (winHistory s1) 15) (getOnlineCount s1))
        in (scheduleOnlineBroadcast s1, out))"

subsection \<open>Message handler\<close>

text \<open>
  A parsed inbound message, by its \<open>type\<close>: \<open>DRegister\<close> carries \<open>data.nickname\<close>,
  \<open>DChat\<close> carries \<open>data.text\<close>, \<open>DWin\<close> carries \<open>Number(data.amount)\<close> (the numeric
  coercion of the runtime, NaN for a value that is not numeric) and \<open>data.game\<close>;
  \<open>DOther\<close> is any other type.
\<close>

datatype data = DRegister jsval | DChat jsval | DWin jsnum jsval | DPing | DOther

definition case_register ::
  "lowercase \<Rightarrow> state \<Rightarrow> ws \<Rightarrow> client \<Rightarrow> jsval \<Rightarrow> env \<Rightarrow> state \<times> action list" where
  "case_register lc s w cl nickname_field e =
     (if registered cl then (s, [])
      else
        let nick = sanitizeNick (js_or nickname_field (JStr [])) in
        if length nick < 2 then (s, sendTo s w (Register_error MinTwoChars))
        else if length nick > 24 then (s, sendTo s w (Register_error MaxTwentyFourChars))
        else if isNickTaken lc s nick (id' cl) then (s, sendTo s w (Register_error NickTaken))
        else if list_ex (\<lambda>b. includes_str (lc nick) b) BAD_NICKS
          then (s, sendTo s w (Register_error NickForbidden))
        else
          let s1 = s\<lparr>clients := AList.update w
                     (cl\<lparr>nickname := Some nick, registered := True\<rparr>) (clients s)\<rparr>;
              out1 = sendTo s1 w (Register_ok nick (id' cl));
              joinMsg = System_message (Joined nick) (formatTime1 e);
              s2 = s1\<lparr>chatHistory := pushBounded (chatHistory s1) joinMsg MAX_CHAT\<rparr>;
              out2 = broadcastAll s2 joinMsg
          in (scheduleOnlineBroadcast s2, out1 @ out2))"

definition case_chat :: "state \<Rightarrow> ws \<Rightarrow> client \<Rightarrow> jsval \<Rightarrow> env \<Rightarrow> state \<times> action list" where
  "case_chat s w cl text_field e =
     (if \<not> registered cl then (s, sendTo s w (Error LoginFirst))
      else
        let (ok, limits) = checkRate (rateLimits s) (Date_now e) (id' cl);
            s1 = s\<lparr>rateLimits := limits\<rparr>
        in
        if \<not> ok then (s1, sendTo s1 w (Error TooManyMessages))
        else
          let txt = sanitize (js_or text_field (JStr [])) 200 in
          if txt = [] then (s1, [])
          else
            let msg = Chat (uuidv4 e) (id' cl) (nickname cl) txt (formatTime1 e);
                s2 = s1\<lparr>chatHistory := pushBounded (chatHistory s1) msg MAX_CHAT\<rparr>
            in (s2, broadcastAll s2 msg))"

text \<open>The default game name, the Russian word for game.\<close>

definition default_game :: jstring where
  "default_game = [1048, 1075, 1088, 1072]"

definition case_win :: "state \<Rightarrow> ws \<Rightarrow> client \<Rightarrow> jsnum \<Rightarrow> jsval \<Rightarrow> env \<Rightarrow> state \<times> action list" where
  "case_win s w cl amount_number game_field e =
     (if \<not> registered cl then (s, [])
      else
        let amount = Math_floor (or0 amount_number) in
        if num_le amount 0 \<or> num_gt amount 1000000 then (s, [])
        else
          let game = sanitize (js_or game_field (JStr default_game)) 40;
              win = Win (id' cl) (nickname cl) amount game (formatTime1 e);
              s1 = s\<lparr>winHistory := pushBounded (winHistory s) win MAX_WINS\<rparr>;
              out1 = broadcastAll s1 win
          in
          if num_ge amount 500 then
            let sys = System_message (BigWin (nickname cl) amount game) (formatTime2 e);
                s2 = s1\<lparr>chatHistory := pushBounded (chatHistory s1) sys MAX_CHAT\<rparr>
            in (s2, out1 @ broadcastAll s2 sys)
          else (s1, out1))"

text \<open>
  The listener of \<open>message\<close> from the parsed text on. \<open>raw\<close> is \<open>None\<close> when the handler
  ends before the dispatch: the text does not parse as JSON, or it parses to \<open>null\<close>, of
  which reading the type throws. \<open>client.id\<close> is the \<open>clientId\<close> of the listener's
  closure, so the model reads the identifier from the session.
\<close>

definition on_message ::
  "lowercase \<Rightarrow> state \<Rightarrow> ws \<Rightarrow> data option \<Rightarrow> env \<Rightarrow> state \<times> action list" where
  "on_message lc s w raw e =
     (case raw of
        None \<Rightarrow> (s, [])
      | Some d \<Rightarrow>
          (case map_of (clients s) w of
             None \<Rightarrow> (s, [])
           | Some cl \<Rightarrow>
               (case d of
                  DRegister nickname_field \<Rightarrow> case_register lc s w cl nickname_field e
                | DChat text_field \<Rightarrow> case_chat s w cl text_field e
                | DWin amount_number game_field \<Rightarrow> case_win s w cl amount_number game_field e
                | DPing \<Rightarrow> (s, sendTo s w Pong)
                | DOther \<Rightarrow> (s, []))))"

text \<open>
  The listener of \<open>message\<close> with its guard: \<open>str_length\<close> is \<open>str.length\<close> of the text of
  the frame, \<open>parsed\<close> what \<open>JSON.parse\<close> makes of it. A text of more than 8192 code
  units is dropped before it is parsed.
\<close>

definition on_raw_message ::
  "lowercase \<Rightarrow> state \<Rightarrow> ws \<Rightarrow> nat \<Rightarrow> data option \<Rightarrow> env \<Rightarrow> state \<times> action list" where
  "on_raw_message lc s w str_length parsed e =
     (if str_length > 8192 then (s, []) else on_message lc s w parsed e)"

subsection \<open>Disconnect\<close>

definition on_close :: "state \<Rightarrow> ws \<Rightarrow> env \<Rightarrow> state \<times> action list" where
  "on_close s w e =
     (case map_of (clients s) w of
        None \<Rightarrow> (scheduleOnlineBroadcast s, [])
      | Some cl \<Rightarrow>
          let (s1, out) =
                (case nickname cl of
                   Some n \<Rightarrow>
                     if registered cl \<and> n \<noteq> [] then
                       let bye = System_message (LeftCasino n) (formatTime1 e);
                           s0 = s\<lparr>chatHistory := pushBounded (chatHistory s) bye MAX_CHAT\<rparr>
                       in (s0, broadcast s0 bye (Some w))
                     else (s, [])
                 | None \<Rightarrow> (s, []));
              s2 = s1\<lparr>rateLimits := (rateLimits s1)(id' cl := None)\<rparr>;
              s3 = s2\<lparr>clients := AList.delete w (clients s2)\<rparr>
          in (scheduleOnlineBroadcast s3, out))"

text \<open>The callback of the timer that \<open>scheduleOnlineBroadcast\<close> sets.\<close>

definition on_broadcastTimer :: "state \<Rightarrow> state \<times> action list" where
  "on_broadcastTimer s =
     (let s1 = s\<lparr>broadcastTimer := False\<rparr>
      in (s1, broadcastAll s1 (Online_count (getOnlineCount s1))))"

subsection \<open>Periodic tasks\<close>

text \<open>\<open>while (arr.length > n) arr.shift()\<close>\<close>

function shift_down :: "'a list \<Rightarrow> nat \<Rightarrow> 'a list" where
  "shift_down arr n = (if length arr > n then shift_down (tl arr) n else arr)"
  by pat_completeness auto
termination
  by (relation "measure (\<lambda>(arr, n). length arr)") auto

text \<open>The memory watchdog, when the heap is over its threshold.\<close>

definition on_memory_pressure :: "state \<Rightarrow> state" where
  "on_memory_pressure s =
     s\<lparr>chatHistory := shift_down (chatHistory s) 20, winHistory := shift_down (winHistory s) 20\<rparr>"

text \<open>The sweep of stale rate limits; \<open>now\<close> is \<open>Date.now()\<close>.\<close>

definition on_rate_sweep :: "state \<Rightarrow> int \<Rightarrow> state" where
  "on_rate_sweep s now =
     (let cutoff = now - RL_WINDOW * 5
      in s\<lparr>rateLimits := (\<lambda>i. case rateLimits s i of
                                 None \<Rightarrow> None
                               | Some r \<Rightarrow> if rl_t r < cutoff then None else Some r)\<rparr>)"

section \<open>The store between handlers\<close>

text \<open>
  A nickname that a registration has stored: 2 to 24 code units, containing none of the
  reserved names, and left as it is by the sanitizer.
\<close>

definition valid_nick :: "lowercase \<Rightarrow> jstring \<Rightarrow> bool" where
  "valid_nick lc n =
     (2 \<le> length n \<and> length n \<le> 24
      \<and> \<not> list_ex (\<lambda>b. includes_str (lc n) b) BAD_NICKS
      \<and> sanitizeNick (JStr n) = n)"

definition client_ok :: "lowercase \<Rightarrow> client \<Rightarrow> bool" where
  "client_ok lc c =
     (case nickname c of None \<Rightarrow> \<not> registered c | Some n \<Rightarrow> registered c \<and> valid_nick lc n)"

text \<open>
  Two sessions differ in their identifier and their nicknames differ when lower-cased.
\<close>

definition apart :: "lowercase \<Rightarrow> client \<Rightarrow> client \<Rightarrow> bool" where
  "apart lc c d =
     (id' c \<noteq> id' d
      \<and> (case nickname c of
            None \<Rightarrow> True
          | Some n \<Rightarrow> (case nickname d of None \<Rightarrow> True | Some m \<Rightarrow> lc n \<noteq> lc m)))"

text \<open>
  The keys of \<open>clients\<close> are distinct sockets, a session has a nickname exactly when it
  is registered, and the sessions of two sockets are apart. The handlers keep this, given
  that \<open>uuidv4\<close> returns an identifier no session has.
\<close>

definition wf_state :: "lowercase \<Rightarrow> state \<Rightarrow> bool" where
  "wf_state lc s =
     (distinct (map fst (clients s))
      \<and> list_all (\<lambda>p. client_ok lc (snd p)) (clients s)
      \<and> list_all (\<lambda>p. list_all (\<lambda>q. fst p = fst q \<or> apart lc (snd p) (snd q)) (clients s))
            (clients s))"

text \<open>
  The stores the server can be in: it starts empty; the library adds sockets to
  \<open>wss.clients\<close>, removes them and changes their state; the handlers and the periodic
  tasks run one at a time. \<open>uuidv4\<close> is taken to return an identifier no session has.
\<close>

inductive reachable :: "lowercase \<Rightarrow> state \<Rightarrow> bool" for lc :: lowercase where
  start: "reachable lc \<lparr>wss_clients = [], readyState = r, clients = [], chatHistory = [],
            winHistory = [], rateLimits = Map.empty, broadcastTimer = False\<rparr>"
| sockets: "reachable lc s \<Longrightarrow> reachable lc (s\<lparr>wss_clients := l, readyState := r\<rparr>)"
| connection: "reachable lc s \<Longrightarrow> \<forall>p\<in>set (clients s). id' (snd p) \<noteq> uuidv4 e \<Longrightarrow>
            reachable lc (fst (on_connection s w e a))"
| message: "reachable lc s \<Longrightarrow> reachable lc (fst (on_raw_message lc s w n raw e))"
| close: "reachable lc s \<Longrightarrow> reachable lc (fst (on_close s w e))"
| timer: "reachable lc s \<Longrightarrow> reachable lc (fst (on_broadcastTimer s))"
| memory: "reachable lc s \<Longrightarrow> reachable lc (on_memory_pressure s)"
| sweep: "reachable lc s \<Longrightarrow> reachable lc (on_rate_sweep s now)"

section \<open>A small store for the examples\<close>

text \<open>
  A lower-casing function for the examples. It is what \<open>toLowerCase\<close> does on the code
  units the examples use: the ASCII characters, of which the letters A to Z have their
  small letter, U+0130 (capital I with dot above), whose lower case is i followed by the
  combining dot U+0307, and U+0307 itself, which is kept.
\<close>

definition example_lower :: lowercase where
  "example_lower s =
     concat (map (\<lambda>c. if 65 \<le> c \<and> c \<le> 90 then [c + 32]
                        else if c = 304 then [105, 775] else [c]) s)"

text \<open>
  Three open sockets: socket 11 is registered as Alex, socket 12 is connected and not
  yet registered, socket 13 is registered as Neo.
\<close>

definition demo_state :: state where
  "demo_state =
     \<lparr>wss_clients = [11, 12, 13],
      readyState = (\<lambda>w. OPEN),
      clients =
        [(11, \<lparr>id' = 10, nickname = Some (str ''Alex''), ip = str ''10.0.0.1'', registered = True\<rparr>),
         (12, \<lparr>id' = 20, nickname = None, ip = str ''10.0.0.2'', registered = False\<rparr>),
         (13, \<lparr>id' = 30, nickname = Some (str ''Neo''), ip = str ''10.0.0.3'', registered = True\<rparr>)],
      chatHistory = [],
      winHistory = [],
      rateLimits = Map.empty,
      broadcastTimer = False\<rparr>"

text \<open>
  Two open sockets: socket 11 is registered with the nickname \<open>n\<close>, socket 12 is
  connected and not yet registered.
\<close>

definition two_sockets :: "jstring \<Rightarrow> state" where
  "two_sockets n =
     \<lparr>wss_clients = [11, 12],
      readyState = (\<lambda>w. OPEN),
      clients =
        [(11, \<lparr>id' = 10, nickname = Some n, ip = str ''10.0.0.1'', registered = True\<rparr>),
         (12, \<lparr>id' = 20, nickname = None, ip = str ''10.0.0.2'', registered = False\<rparr>)],
      chatHistory = [],
      winHistory = [],
      rateLimits = Map.empty,
      broadcastTimer = False\<rparr>"

text \<open>
  Two nicknames that are equal when lower-cased: U+0130 followed by 23 times a, which has
  24 code units, and i, U+0307 and 23 times a, which has 25.
\<close>

definition capital_dotted :: jstring where
  "capital_dotted = 304 # str ''aaaaaaaaaaaaaaaaaaaaaaa''"

definition small_dotted :: jstring where
  "small_dotted = 105 # 775 # str ''aaaaaaaaaaaaaaaaaaaaaaa''"

definition demo_env :: env where
  "demo_env = \<lparr>Date_now = 5000, uuidv4 = 77, formatTime1 = str ''12:00'', formatTime2 = str ''12:01''\<rparr>"

section \<open>Theorems\<close>

subsection \<open>History buffers\<close>

lemma pushBounded_drop:
  "length arr \<le> C \<Longrightarrow> pushBounded arr x C = drop (Suc (length arr) - C) (arr @ [x])"
  by (cases arr) (auto simp: pushBounded_def Let_def Suc_diff_le drop_Suc)

lemma appends_snoc: "appends C (xs @ [x]) = pushBounded (appends C xs) x C"
  by (simp add: appends_def)

lemma appends_drop: "appends C xs = drop (length xs - C) xs"
proof (induction xs rule: rev_induct)
  case Nil
  show ?case by (simp add: appends_def)
next
  case (snoc x xs)
  have "length (drop (length xs - C) xs) \<le> C" by simp
  then have "pushBounded (drop (length xs - C) xs) x C =
      drop (Suc (length (drop (length xs - C) xs)) - C) (drop (length xs - C) xs @ [x])"
    by (rule pushBounded_drop)
  also have "\<dots> = drop (Suc (length xs) - C) (xs @ [x])"
    by (cases "length xs \<le> C") (auto simp: Suc_diff_le)
  finally show ?case using snoc by (simp add: appends_snoc)
qed

text \<open>
  C1: after any sequence of appends to an empty history buffer of capacity \<open>C\<close> (40 for
  the chat, 50 for the wins) the buffer holds exactly \<open>min (number of appends) C\<close>
  entries; they are the last \<open>C\<close> appended, in insertion order, and what was evicted is
  the oldest part of the sequence.
\<close>

theorem C1_bounded_history:
  "length (appends C xs) = min (length xs) C
   \<and> appends C xs = drop (length xs - C) xs
   \<and> xs = take (length xs - C) xs @ appends C xs
   \<and> length (appends MAX_CHAT xs) = min (length xs) 40
   \<and> length (appends MAX_WINS xs) = min (length xs) 50"
  by (auto simp: appends_drop MAX_CHAT_def MAX_WINS_def)

theorem C1_bounded_history_witness:
  "appends 2 [1, 2, 3 :: nat] = [2, 3] \<and> length (appends 2 [1, 2, 3 :: nat]) = 2"
  using C1_bounded_history [of 2 "[1, 2, 3 :: nat]"] by simp

subsection \<open>Rate limiter\<close>

lemma checkRate_in_window:
  "limits cid = Some r \<Longrightarrow> t - rl_t r \<le> RL_WINDOW \<Longrightarrow>
   checkRate limits t cid =
     (rl_count r + 1 \<le> RL_MAX_CHAT, limits(cid \<mapsto> r\<lparr>rl_count := rl_count r + 1\<rparr>))"
  by (simp add: checkRate_def Let_def)

lemma checkRate_fresh:
  "limits cid = None \<or> (\<exists>r. limits cid = Some r \<and> t - rl_t r > RL_WINDOW) \<Longrightarrow>
   checkRate limits t cid = (True, limits(cid \<mapsto> \<lparr>rl_count = 1, rl_t = t\<rparr>))"
  by (auto simp: checkRate_def Let_def RL_MAX_CHAT_def)

lemma checkRates_in_window:
  "limits cid = Some r \<Longrightarrow> \<forall>t\<in>set ts. t - rl_t r \<le> RL_WINDOW \<Longrightarrow>
   checkRates limits cid ts =
     (map (\<lambda>i. rl_count r + 1 + int i \<le> RL_MAX_CHAT) [0..<length ts],
      limits(cid \<mapsto> r\<lparr>rl_count := rl_count r + int (length ts)\<rparr>))"
proof (induction ts arbitrary: limits r)
  case Nil
  then show ?case by (auto simp: fun_upd_idem)
next
  case (Cons t ts)
  let ?r1 = "r\<lparr>rl_count := rl_count r + 1\<rparr>"
  let ?l1 = "limits(cid \<mapsto> ?r1)"
  have step: "checkRate limits t cid = (rl_count r + 1 \<le> RL_MAX_CHAT, ?l1)"
    using Cons.prems by (simp add: checkRate_in_window)
  have "?l1 cid = Some ?r1" by simp
  moreover have "\<forall>t\<in>set ts. t - rl_t ?r1 \<le> RL_WINDOW" using Cons.prems by simp
  ultimately have ih: "checkRates ?l1 cid ts =
     (map (\<lambda>i. rl_count ?r1 + 1 + int i \<le> RL_MAX_CHAT) [0..<length ts],
      ?l1(cid \<mapsto> ?r1\<lparr>rl_count := rl_count ?r1 + int (length ts)\<rparr>))"
    by (rule Cons.IH)
  have maps: "map (\<lambda>i. rl_count r + 1 + int i \<le> RL_MAX_CHAT) [0..<length (t # ts)] =
      (rl_count r + 1 \<le> RL_MAX_CHAT) # map (\<lambda>i. rl_count ?r1 + 1 + int i \<le> RL_MAX_CHAT) [0..<length ts]"
    by (simp add: map_upt_Suc add.assoc del: upt_Suc)
  have fin: "?l1(cid \<mapsto> ?r1\<lparr>rl_count := rl_count ?r1 + int (length ts)\<rparr>) =
      limits(cid \<mapsto> r\<lparr>rl_count := rl_count r + int (length (t # ts))\<rparr>)"
    by (simp add: add.assoc)
  have "checkRates limits cid (t # ts) =
     ((rl_count r + 1 \<le> RL_MAX_CHAT) # map (\<lambda>i. rl_count ?r1 + 1 + int i \<le> RL_MAX_CHAT) [0..<length ts],
      ?l1(cid \<mapsto> ?r1\<lparr>rl_count := rl_count ?r1 + int (length ts)\<rparr>))"
    by (simp only: checkRates.simps step ih Let_def prod.case)
  then show ?case by (simp only: maps fin)
qed

text \<open>
  C3: with a window of 10 seconds and a maximum of 6, when a session's first check at
  time \<open>t0\<close> finds no window or an expired one, and every later check falls within the
  window that starts at \<open>t0\<close>, the checks number 1 to 6 are allowed and every later one
  (the 7th first) is denied; a check made more than 10 seconds after \<open>t0\<close> starts a
  fresh window with count 1 and is allowed.
\<close>

theorem C3_rate_limit:
  assumes fresh: "limits cid = None \<or> (\<exists>r. limits cid = Some r \<and> t0 - rl_t r > RL_WINDOW)"
    and win: "\<forall>t\<in>set ts. t - t0 \<le> RL_WINDOW"
  shows "RL_WINDOW = 10000 \<and> RL_MAX_CHAT = 6
     \<and> fst (checkRates limits cid (t0 # ts)) = map (\<lambda>i. i < 6) [0..<Suc (length ts)]
     \<and> (t0 + RL_WINDOW < t' \<longrightarrow>
          checkRate (snd (checkRates limits cid (t0 # ts))) t' cid =
            (True, (snd (checkRates limits cid (t0 # ts)))(cid \<mapsto> \<lparr>rl_count = 1, rl_t = t'\<rparr>)))"
proof -
  let ?r = "\<lparr>rl_count = 1, rl_t = t0\<rparr>"
  let ?l1 = "limits(cid \<mapsto> ?r)"
  have first: "checkRate limits t0 cid = (True, ?l1)"
    using fresh by (rule checkRate_fresh)
  have rest: "checkRates ?l1 cid ts =
     (map (\<lambda>i. rl_count ?r + 1 + int i \<le> RL_MAX_CHAT) [0..<length ts],
      ?l1(cid \<mapsto> ?r\<lparr>rl_count := rl_count ?r + int (length ts)\<rparr>))"
    using win by (intro checkRates_in_window) auto
  have all: "checkRates limits cid (t0 # ts) =
     (True # map (\<lambda>i. int i + 2 \<le> 6) [0..<length ts],
      limits(cid \<mapsto> \<lparr>rl_count = 1 + int (length ts), rl_t = t0\<rparr>))"
    by (simp add: first rest RL_MAX_CHAT_def add.commute)
  have res: "fst (checkRates limits cid (t0 # ts)) = map (\<lambda>i. i < 6) [0..<Suc (length ts)]"
    unfolding all by (auto simp: map_upt_Suc simp del: upt_Suc)
  let ?l2 = "limits(cid \<mapsto> \<lparr>rl_count = 1 + int (length ts), rl_t = t0\<rparr>)"
  have snd_eq: "snd (checkRates limits cid (t0 # ts)) = ?l2" by (simp only: all snd_conv)
  have l2: "t0 + RL_WINDOW < t' \<longrightarrow>
          checkRate ?l2 t' cid = (True, ?l2(cid \<mapsto> \<lparr>rl_count = 1, rl_t = t'\<rparr>))"
    using checkRate_fresh [of ?l2 cid t'] by simp
  have later: "t0 + RL_WINDOW < t' \<longrightarrow>
          checkRate (snd (checkRates limits cid (t0 # ts))) t' cid =
            (True, (snd (checkRates limits cid (t0 # ts)))(cid \<mapsto> \<lparr>rl_count = 1, rl_t = t'\<rparr>))"
    unfolding snd_eq by (rule l2)
  show ?thesis using res later by (simp add: RL_WINDOW_def RL_MAX_CHAT_def)
qed

theorem C3_rate_limit_witness: "fst (checkRates Map.empty 7 [0, 1000, 2000, 3000, 4000, 9000, 10000])
     = [True, True, True, True, True, True, False]
   \<and> fst (checkRate (snd (checkRates Map.empty 7 [0, 1000, 2000, 3000, 4000, 9000, 10000])) 10001 7) = True"
  using C3_rate_limit [of Map.empty 7 0 "[1000, 2000, 3000, 4000, 9000, 10000]" 10001]
  by (simp add: RL_WINDOW_def upt_rec)

subsection \<open>The sanitizer\<close>

lemma replace_all_append:
  "replace_all c r (xs @ ys) = replace_all c r xs @ replace_all c r ys"
  by (simp add: replace_all_def)

lemma replace_all_concat:
  "replace_all c r (concat xss) = concat (map (replace_all c r) xss)"
  by (induction xss) (simp_all add: replace_all_append, simp add: replace_all_def)

lemma replace_all_map:
  "replace_all c r (concat (map f s)) = concat (map (\<lambda>x. replace_all c r (f x)) s)"
  by (simp add: replace_all_concat comp_def)

lemma replace_all_as_map: "replace_all c r s = concat (map (\<lambda>x. replace_all c r [x]) s)"
  by (simp add: replace_all_def)

lemma escape_one:
  "replace_all 39 (str ''&#39;'') (replace_all 34 (str ''&quot;'')
     (replace_all 62 (str ''&gt;'') (replace_all 60 (str ''&lt;'') [x]))) = escape_unit x"
  by (simp add: replace_all_def escape_unit_def str_def)

lemma sanitize_escape:
  "sanitize (JStr raw) maxLen = concat (map escape_unit (slice0 (trim raw) maxLen))"
proof -
  let ?s = "slice0 (trim raw) maxLen"
  have "sanitize (JStr raw) maxLen =
      concat (map (\<lambda>x. replace_all 39 (str ''&#39;'') (replace_all 34 (str ''&quot;'')
        (replace_all 62 (str ''&gt;'') (replace_all 60 (str ''&lt;'') [x])))) ?s)"
    unfolding sanitize.simps
    by (subst replace_all_as_map [of 60]) (simp only: replace_all_map)
  then show ?thesis by (simp only: escape_one)
qed

lemma length_escape_unit: "length (escape_unit c) \<le> 6"
  by (simp add: escape_unit_def str_def)

lemma length_concat_escape: "length (concat (map escape_unit s)) \<le> 6 * length s"
proof (induction s)
  case Nil
  show ?case by simp
next
  case (Cons c s)
  then show ?case using length_escape_unit [of c] by simp
qed

lemma escape_unit_clean: "x \<in> set (escape_unit c) \<Longrightarrow> x \<noteq> 60 \<and> x \<noteq> 62 \<and> x \<noteq> 34 \<and> x \<noteq> 39"
  by (auto simp: escape_unit_def str_def split: if_splits)

lemma escape_plain:
  "\<forall>c\<in>set s. c \<noteq> 60 \<and> c \<noteq> 62 \<and> c \<noteq> 34 \<and> c \<noteq> 39 \<Longrightarrow> concat (map escape_unit s) = s"
  by (induction s) (auto simp: escape_unit_def)

lemma length_slice0: "length (slice0 s n) \<le> n"
  by (simp add: slice0_def)

text \<open>
  C7, as the code has it: for a string, \<open>sanitize\<close> trims the input, keeps its first
  \<open>maxLen\<close> code units and then escapes each of \<open>< > " '\<close> by its entity, so none of the
  four is left in the result; the result has at most \<open>6 * maxLen\<close> code units, and it is
  the truncated text itself (at most \<open>maxLen\<close> code units, white space inside it kept
  as it is) when that text holds none of the four. For an input that is not a string
  both \<open>sanitize\<close> and \<open>sanitizeNick\<close> return the empty string.
\<close>

theorem C7_sanitize:
  "sanitize (JStr raw) maxLen = concat (map escape_unit (slice0 (trim raw) maxLen))
   \<and> length (sanitize (JStr raw) maxLen) \<le> 6 * maxLen
   \<and> (\<forall>x\<in>set (sanitize (JStr raw) maxLen). x \<noteq> 60 \<and> x \<noteq> 62 \<and> x \<noteq> 34 \<and> x \<noteq> 39)
   \<and> ((\<forall>c\<in>set (slice0 (trim raw) maxLen). c \<noteq> 60 \<and> c \<noteq> 62 \<and> c \<noteq> 34 \<and> c \<noteq> 39) \<longrightarrow>
        sanitize (JStr raw) maxLen = slice0 (trim raw) maxLen
        \<and> length (sanitize (JStr raw) maxLen) \<le> maxLen)
   \<and> ((\<forall>s. v \<noteq> JStr s) \<longrightarrow> sanitize v maxLen = [] \<and> sanitizeNick v = [])"
proof -
  let ?t = "slice0 (trim raw) maxLen"
  have len: "length (sanitize (JStr raw) maxLen) \<le> 6 * maxLen"
  proof -
    have "length (concat (map escape_unit ?t)) \<le> 6 * length ?t"
      by (rule length_concat_escape)
    also have "\<dots> \<le> 6 * maxLen" using length_slice0 [of "trim raw" maxLen] by simp
    finally show ?thesis by (simp only: sanitize_escape)
  qed
  have clean: "\<forall>x\<in>set (sanitize (JStr raw) maxLen). x \<noteq> 60 \<and> x \<noteq> 62 \<and> x \<noteq> 34 \<and> x \<noteq> 39"
    unfolding sanitize_escape using escape_unit_clean by auto
  have plain: "(\<forall>c\<in>set ?t. c \<noteq> 60 \<and> c \<noteq> 62 \<and> c \<noteq> 34 \<and> c \<noteq> 39) \<longrightarrow>
        sanitize (JStr raw) maxLen = ?t \<and> length (sanitize (JStr raw) maxLen) \<le> maxLen"
    unfolding sanitize_escape using escape_plain [of ?t] length_slice0 [of "trim raw" maxLen]
    by auto
  have other: "(\<forall>s. v \<noteq> JStr s) \<longrightarrow> sanitize v maxLen = [] \<and> sanitizeNick v = []"
    by (cases v) simp_all
  show ?thesis using sanitize_escape len clean plain other by blast
qed

theorem C7_sanitize_witness:
  "sanitize (JStr (str '' <b>x'')) 3 = str ''&lt;b&gt;''
   \<and> sanitize (JStr (str ''a  b '')) 200 = str ''a  b''
   \<and> sanitize JNull 200 = [] \<and> sanitizeNick (JNum (Finite 5)) = []"
  using C7_sanitize [of "str '' <b>x''" 3 JNull] C7_sanitize [of "str ''a  b ''" 200 "JNum (Finite 5)"]
  by (simp add: str_def trim_def slice0_def isWhiteSpace_def escape_unit_def)

lemma trim_replicate: "\<not> isWhiteSpace c \<Longrightarrow> trim (replicate n c) = replicate n c"
  by (cases n) (simp_all add: trim_def dropWhile_append3 flip: replicate_append_same)

lemma length_sanitize_lt: "length (sanitize (JStr (replicate n 60)) n) = 4 * n"
proof -
  have "trim (replicate n 60) = replicate n 60"
    by (rule trim_replicate) (simp add: isWhiteSpace_def)
  then have "sanitize (JStr (replicate n 60)) n = concat (map escape_unit (replicate n 60))"
    unfolding sanitize_escape by (simp add: slice0_def)
  also have "length \<dots> = 4 * n"
    by (induction n) (simp_all add: escape_unit_def str_def)
  finally show ?thesis .
qed

theorem C7_sanitize_counterexample:
  "length (sanitize (JStr (replicate 200 60)) 200) = 800
   \<and> length (sanitize (JStr (str ''<b>'')) 3) = 9
   \<and> sanitize (JStr (str ''a  b'')) 200 = str ''a  b''"
  using length_sanitize_lt [of 200]
  by (simp add: str_def trim_def slice0_def isWhiteSpace_def replace_all_def)

subsection \<open>The nickname sanitizer\<close>

lemma trim_Nil [simp]: "trim [] = []"
  by (simp add: trim_def)

lemma trim_prefix: "\<exists>zs. dropWhile isWhiteSpace s = trim s @ zs"
proof -
  let ?y = "dropWhile isWhiteSpace s"
  have "rev ?y = takeWhile isWhiteSpace (rev ?y) @ dropWhile isWhiteSpace (rev ?y)" by simp
  then have "?y = rev (dropWhile isWhiteSpace (rev ?y)) @ rev (takeWhile isWhiteSpace (rev ?y))"
    by (metis rev_append rev_rev_ident)
  then show ?thesis unfolding trim_def by blast
qed

lemma trim_head: "trim s \<noteq> [] \<Longrightarrow> \<not> isWhiteSpace (hd (trim s))"
proof -
  assume ne: "trim s \<noteq> []"
  obtain zs where z: "dropWhile isWhiteSpace s = trim s @ zs" using trim_prefix by blast
  then have "dropWhile isWhiteSpace s \<noteq> []" using ne by simp
  then have "\<not> isWhiteSpace (hd (dropWhile isWhiteSpace s))" by (rule hd_dropWhile)
  then show ?thesis using z ne by simp
qed

lemma trim_idem [simp]: "trim (trim s) = trim s"
proof -
  have front: "dropWhile isWhiteSpace (trim s) = trim s"
    using trim_head [of s] by (cases "trim s") auto
  have "trim (trim s) = rev (dropWhile isWhiteSpace (rev (trim s)))"
    unfolding trim_def [of "trim s"] front ..
  also have "\<dots> = trim s" by (simp add: trim_def)
  finally show ?thesis .
qed

lemma length_trim: "length (trim s) \<le> length s"
proof -
  have "length (dropWhile isWhiteSpace (rev (dropWhile isWhiteSpace s)))
      \<le> length (rev (dropWhile isWhiteSpace s))" by (rule length_dropWhile_le)
  also have "\<dots> \<le> length s" by (simp add: length_dropWhile_le)
  finally show ?thesis by (simp add: trim_def)
qed

lemma set_trim: "set (trim s) \<subseteq> set s"
proof -
  have "set (dropWhile isWhiteSpace (rev (dropWhile isWhiteSpace s)))
      \<subseteq> set (rev (dropWhile isWhiteSpace s))" by (rule set_dropWhileD [THEN subsetI])
  moreover have "set (dropWhile isWhiteSpace s) \<subseteq> set s" by (rule set_dropWhileD [THEN subsetI])
  ultimately show ?thesis by (auto simp: trim_def)
qed

lemma length_collapse: "length (collapse s) \<le> length s"
proof (induction s rule: collapse.induct)
  case 1
  show ?case by simp
next
  case (2 c cs)
  have "length (dropWhile isWhiteSpace cs) \<le> length cs" by (rule length_dropWhile_le)
  with 2 show ?case by auto
qed

lemma set_collapse: "set (collapse s) \<subseteq> insert 32 (set s)"
proof (induction s rule: collapse.induct)
  case 1
  show ?case by simp
next
  case (2 c cs)
  have "set (dropWhile isWhiteSpace cs) \<subseteq> set cs" by (rule set_dropWhileD [THEN subsetI])
  with 2 show ?case by auto
qed

lemma collapse_front:
  "y = [] \<or> \<not> isWhiteSpace (hd y) \<Longrightarrow> dropWhile isWhiteSpace (collapse y) = collapse y"
  by (cases y) auto

lemma dropWhile_front: "dropWhile isWhiteSpace cs = [] \<or> \<not> isWhiteSpace (hd (dropWhile isWhiteSpace cs))"
  using hd_dropWhile [of isWhiteSpace cs] by blast

lemma collapse_idem [simp]: "collapse (collapse s) = collapse s"
proof (induction s rule: collapse.induct)
  case 1
  show ?case by simp
next
  case (2 c cs)
  show ?case
  proof (cases "isWhiteSpace c")
    case True
    have "dropWhile isWhiteSpace (collapse (dropWhile isWhiteSpace cs))
        = collapse (dropWhile isWhiteSpace cs)"
      using dropWhile_front by (rule collapse_front)
    with True 2 show ?thesis by (simp add: isWhiteSpace_def)
  next
    case False
    with 2 show ?thesis by simp
  qed
qed

lemma collapse_fix_prefix: "collapse (p @ q) = p @ q \<Longrightarrow> collapse p = p"
proof (induction p)
  case Nil
  show ?case by simp
next
  case (Cons c p)
  show ?case
  proof (cases "isWhiteSpace c")
    case False
    with Cons show ?thesis by simp
  next
    case True
    let ?d = "dropWhile isWhiteSpace (p @ q)"
    from True Cons.prems have c: "c = 32" and eq: "collapse ?d = p @ q" by simp_all
    have "length (p @ q) = length (collapse ?d)" using eq by simp
    also have "\<dots> \<le> length ?d" by (rule length_collapse)
    finally have "length ?d = length (p @ q)"
      using length_dropWhile_le [of isWhiteSpace "p @ q"] by simp
    then have d: "?d = p @ q"
      by (metis append_eq_append_conv append_Nil takeWhile_dropWhile_id)
    then have "collapse (p @ q) = p @ q" using eq by simp
    then have p: "collapse p = p" by (rule Cons.IH)
    have "dropWhile isWhiteSpace p = p"
    proof (cases p)
      case Nil
      then show ?thesis by simp
    next
      case (Cons a as)
      moreover have "p @ q = [] \<or> \<not> isWhiteSpace (hd (p @ q))"
        using d by (simp only: dropWhile_eq_self_iff)
      ultimately have "\<not> isWhiteSpace a" by simp
      with Cons show ?thesis by simp
    qed
    with True c p show ?thesis by simp
  qed
qed

lemma collapse_fix_dropWhile:
  "collapse x = x \<Longrightarrow> collapse (dropWhile isWhiteSpace x) = dropWhile isWhiteSpace x"
proof (cases x)
  case Nil
  then show ?thesis by simp
next
  case (Cons c cs)
  assume fx: "collapse x = x"
  show ?thesis
  proof (cases "isWhiteSpace c")
    case False
    with Cons fx show ?thesis by simp
  next
    case True
    let ?y = "dropWhile isWhiteSpace cs"
    from True Cons fx have cs: "cs = collapse ?y" by simp
    have "dropWhile isWhiteSpace (collapse ?y) = collapse ?y"
      using dropWhile_front by (rule collapse_front)
    then have "?y = collapse ?y" using cs by simp
    with True Cons show ?thesis by simp
  qed
qed

lemma collapse_fix_trim: "collapse x = x \<Longrightarrow> collapse (trim x) = trim x"
proof -
  assume "collapse x = x"
  then have fx: "collapse (dropWhile isWhiteSpace x) = dropWhile isWhiteSpace x"
    by (rule collapse_fix_dropWhile)
  obtain zs where "dropWhile isWhiteSpace x = trim x @ zs" using trim_prefix by blast
  with fx have "collapse (trim x @ zs) = trim x @ zs" by simp
  then show ?thesis by (rule collapse_fix_prefix)
qed

lemma sanitizeNick_length: "length (sanitizeNick v) \<le> 24"
proof (cases v)
  case (JStr s)
  let ?u = "slice0 (trim s) 24"
  let ?v = "filter (\<lambda>c. \<not> stripped c) ?u"
  have "length (trim (collapse ?v)) \<le> length (collapse ?v)" by (rule length_trim)
  also have "\<dots> \<le> length ?v" by (rule length_collapse)
  also have "\<dots> \<le> length ?u" by simp
  also have "\<dots> \<le> 24" by (simp add: slice0_def)
  finally show ?thesis using JStr by simp
qed simp_all

lemma sanitizeNick_not_stripped: "c \<in> set (sanitizeNick v) \<Longrightarrow> \<not> stripped c"
proof (cases v)
  case (JStr s)
  let ?v = "filter (\<lambda>c. \<not> stripped c) (slice0 (trim s) 24)"
  assume "c \<in> set (sanitizeNick v)"
  then have "c \<in> set (trim (collapse ?v))" using JStr by simp
  then have "c \<in> set (collapse ?v)" using set_trim [of "collapse ?v"] by blast
  then have "c = 32 \<or> c \<in> set ?v" using set_collapse [of ?v] by blast
  then show ?thesis by (auto simp: stripped_def)
qed simp_all

lemma sanitizeNick_idem: "sanitizeNick (JStr (sanitizeNick v)) = sanitizeNick v"
proof -
  let ?n = "sanitizeNick v"
  have tr: "trim ?n = ?n" by (cases v) simp_all
  have sl: "slice0 ?n 24 = ?n" using sanitizeNick_length [of v] by (simp add: slice0_def)
  have fl: "filter (\<lambda>c. \<not> stripped c) ?n = ?n"
    using sanitizeNick_not_stripped [of _ v] by (simp add: filter_id_conv)
  have co: "collapse ?n = ?n" by (cases v) (simp_all add: collapse_fix_trim)
  show ?thesis by (simp add: tr sl fl co)
qed

subsection \<open>What a handler reads of the store\<close>

lemma broadcastAll_chatHistory [simp]:
  "broadcastAll (s\<lparr>chatHistory := h\<rparr>) f = broadcastAll s f"
  by (simp add: broadcastAll_def broadcast_def)

lemma broadcastAll_winHistory [simp]:
  "broadcastAll (s\<lparr>winHistory := h\<rparr>) f = broadcastAll s f"
  by (simp add: broadcastAll_def broadcast_def)

lemma broadcastAll_rateLimits [simp]:
  "broadcastAll (s\<lparr>rateLimits := h\<rparr>) f = broadcastAll s f"
  by (simp add: broadcastAll_def broadcast_def)

lemma sendTo_rateLimits [simp]:
  "sendTo (s\<lparr>rateLimits := h\<rparr>) w f = sendTo s w f"
  by (simp add: sendTo_def)

subsection \<open>What the handlers keep\<close>

lemma apart_sym: "apart lc c d \<Longrightarrow> apart lc d c"
  by (auto simp: apart_def split: option.splits)

lemma wf_state_iff:
  "wf_state lc s \<longleftrightarrow>
     distinct (map fst (clients s))
     \<and> (\<forall>w c. map_of (clients s) w = Some c \<longrightarrow> client_ok lc c)
     \<and> (\<forall>w c v d. map_of (clients s) w = Some c \<and> map_of (clients s) v = Some d \<and> w \<noteq> v
          \<longrightarrow> apart lc c d)"
proof (cases "distinct (map fst (clients s))")
  case False
  then show ?thesis by (simp add: wf_state_def)
next
  case True
  have m: "map_of (clients s) w = Some c \<longleftrightarrow> (w, c) \<in> set (clients s)" for w c
    using True by simp
  have a: "list_all (\<lambda>p. client_ok lc (snd p)) (clients s)
      \<longleftrightarrow> (\<forall>w c. (w, c) \<in> set (clients s) \<longrightarrow> client_ok lc c)"
    by (auto simp: list_all_iff)
  have b: "list_all (\<lambda>p. list_all (\<lambda>q. fst p = fst q \<or> apart lc (snd p) (snd q)) (clients s)) (clients s)
      \<longleftrightarrow> (\<forall>w c v d. (w, c) \<in> set (clients s) \<and> (v, d) \<in> set (clients s) \<and> w \<noteq> v \<longrightarrow> apart lc c d)"
    by (simp add: list_all_iff Ball_def) blast
  show ?thesis unfolding wf_state_def m a b using True by simp
qed

lemma wf_stateI:
  assumes "distinct (map fst (clients s))"
    and "\<And>w c. map_of (clients s) w = Some c \<Longrightarrow> client_ok lc c"
    and "\<And>w c v d. map_of (clients s) w = Some c \<Longrightarrow> map_of (clients s) v = Some d \<Longrightarrow> w \<noteq> v
          \<Longrightarrow> apart lc c d"
  shows "wf_state lc s"
  using assms unfolding wf_state_iff by blast

lemma wf_distinct: "wf_state lc s \<Longrightarrow> distinct (map fst (clients s))"
  by (simp add: wf_state_iff)

lemma wf_client_ok: "wf_state lc s \<Longrightarrow> map_of (clients s) w = Some c \<Longrightarrow> client_ok lc c"
  by (simp add: wf_state_iff)

lemma wf_apart:
  "wf_state lc s \<Longrightarrow> map_of (clients s) w = Some c \<Longrightarrow> map_of (clients s) v = Some d \<Longrightarrow> w \<noteq> v
   \<Longrightarrow> apart lc c d"
  unfolding wf_state_iff by blast

lemma nickLoop_iff:
  "nickLoop lc cs low ex \<longleftrightarrow>
     (\<exists>p\<in>set cs. id' (snd p) \<noteq> ex
        \<and> (\<exists>n. nickname (snd p) = Some n \<and> n \<noteq> [] \<and> lc n = low))"
  by (induction lc cs low ex rule: nickLoop.induct) (auto split: option.splits)

lemma wf_same_clients: "clients t = clients s \<Longrightarrow> wf_state lc s \<Longrightarrow> wf_state lc t"
  by (simp add: wf_state_def)

lemma clients_scheduleOnlineBroadcast [simp]:
  "clients (scheduleOnlineBroadcast s) = clients s"
  by (simp add: scheduleOnlineBroadcast_def)

lemma wf_on_connection:
  assumes wf: "wf_state lc s"
    and fresh: "\<And>v d. map_of (clients s) v = Some d \<Longrightarrow> id' d \<noteq> uuidv4 e"
  shows "wf_state lc (fst (on_connection s w e a))"
proof (cases "MAX_CLIENTS < length (wss_clients s)")
  case True
  then have "clients (fst (on_connection s w e a)) = clients s"
    by (simp add: on_connection_def ws_close_def)
  then show ?thesis using wf by (rule wf_same_clients)
next
  case False
  let ?new = "\<lparr>id' = uuidv4 e, nickname = None, ip = a, registered = False\<rparr>"
  from False have cl: "clients (fst (on_connection s w e a)) = AList.update w ?new (clients s)"
    by (simp add: on_connection_def Let_def)
  show ?thesis
  proof (rule wf_stateI)
    show "distinct (map fst (clients (fst (on_connection s w e a))))"
      unfolding cl using wf_distinct [OF wf] by (rule distinct_update)
  next
    fix v c
    assume "map_of (clients (fst (on_connection s w e a))) v = Some c"
    then show "client_ok lc c"
      unfolding cl using wf_client_ok [OF wf]
      by (auto simp: update_conv' client_ok_def split: if_splits)
  next
    fix v c u d
    assume "map_of (clients (fst (on_connection s w e a))) v = Some c"
      "map_of (clients (fst (on_connection s w e a))) u = Some d" "v \<noteq> u"
    then have vc: "((map_of (clients s))(w \<mapsto> ?new)) v = Some c"
      and ud: "((map_of (clients s))(w \<mapsto> ?new)) u = Some d" and ne: "v \<noteq> u"
      unfolding cl by (simp_all add: update_conv')
    show "apart lc c d"
    proof (cases "v = w")
      case True
      then have "c = ?new" "map_of (clients s) u = Some d" using vc ud ne by auto
      then show ?thesis using fresh [of u d] by (auto simp: apart_def)
    next
      case False
      note vw = this
      show ?thesis
      proof (cases "u = w")
        case True
        then have "d = ?new" "map_of (clients s) v = Some c" using vc ud ne by auto
        then show ?thesis using fresh [of v c] by (auto simp: apart_def split: option.splits)
      next
        case False
        then show ?thesis using vw vc ud ne wf_apart [OF wf, of v c u d] by simp
      qed
    qed
  qed
qed

lemma wf_on_close:
  assumes wf: "wf_state lc s"
  shows "wf_state lc (fst (on_close s w e))"
proof -
  have cl: "clients (fst (on_close s w e)) = AList.delete w (clients s)"
    by (auto simp: on_close_def Let_def map_of_eq_None_iff split: option.splits)
  show ?thesis
  proof (rule wf_stateI)
    show "distinct (map fst (clients (fst (on_close s w e))))"
      unfolding cl using wf_distinct [OF wf] by (rule distinct_delete)
  next
    fix v c
    assume "map_of (clients (fst (on_close s w e))) v = Some c"
    then show "client_ok lc c"
      unfolding cl using wf_client_ok [OF wf]
      by (auto simp: delete_conv' split: if_splits)
  next
    fix v c u d
    assume "map_of (clients (fst (on_close s w e))) v = Some c"
      "map_of (clients (fst (on_close s w e))) u = Some d" "v \<noteq> u"
    then show "apart lc c d"
      unfolding cl using wf_apart [OF wf]
      by (auto simp: delete_conv' split: if_splits)
  qed
qed

lemma scheduleOnlineBroadcast_eq: "scheduleOnlineBroadcast s = s\<lparr>broadcastTimer := True\<rparr>"
  by (cases s) (simp add: scheduleOnlineBroadcast_def)

lemma js_or_str [simp]: "js_or (JStr raw) (JStr []) = JStr raw"
  by (simp add: js_or_def)

lemma sendTo_clients [simp]: "sendTo (s\<lparr>clients := c\<rparr>) w f = sendTo s w f"
  by (simp add: sendTo_def)

lemma broadcastAll_clients [simp]: "broadcastAll (s\<lparr>clients := c\<rparr>) f = broadcastAll s f"
  by (simp add: broadcastAll_def broadcast_def)

text \<open>The register case when every check passes.\<close>

lemma case_register_success:
  assumes "\<not> registered cl"
    and "nick = sanitizeNick (js_or v (JStr []))"
    and "2 \<le> length nick"
    and "\<not> isNickTaken lc s nick (id' cl)"
    and "\<not> list_ex (\<lambda>b. includes_str (lc nick) b) BAD_NICKS"
  shows "case_register lc s w cl v e =
     (s\<lparr>clients := AList.update w (cl\<lparr>nickname := Some nick, registered := True\<rparr>) (clients s),
        chatHistory := pushBounded (chatHistory s) (System_message (Joined nick) (formatTime1 e)) MAX_CHAT,
        broadcastTimer := True\<rparr>,
      sendTo s w (Register_ok nick (id' cl))
        @ broadcastAll s (System_message (Joined nick) (formatTime1 e)))"
proof -
  have "length nick \<le> 24" unfolding assms(2) by (rule sanitizeNick_length)
  then show ?thesis
    using assms(1,3,4,5)
    by (simp add: case_register_def Let_def scheduleOnlineBroadcast_eq flip: assms(2))
qed

lemma case_register_clients:
  "clients (fst (case_register lc s w cl v e)) = clients s
   \<or> (\<not> registered cl \<and> 2 \<le> length (sanitizeNick (js_or v (JStr [])))
      \<and> \<not> isNickTaken lc s (sanitizeNick (js_or v (JStr []))) (id' cl)
      \<and> \<not> list_ex (\<lambda>b. includes_str (lc (sanitizeNick (js_or v (JStr [])))) b) BAD_NICKS
      \<and> clients (fst (case_register lc s w cl v e))
          = AList.update w (cl\<lparr>nickname := Some (sanitizeNick (js_or v (JStr []))), registered := True\<rparr>)
              (clients s))"
  by (simp add: case_register_def Let_def)

lemma case_chat_clients: "clients (fst (case_chat s w cl t e)) = clients s"
  by (simp add: case_chat_def Let_def split: prod.splits)

lemma case_win_clients: "clients (fst (case_win s w cl n g e)) = clients s"
  by (simp add: case_win_def Let_def)

lemma valid_nick_nonempty: "valid_nick lc n \<Longrightarrow> n \<noteq> []"
  by (auto simp: valid_nick_def)

lemma wf_register:
  assumes wf: "wf_state lc s"
    and cl: "map_of (clients s) w = Some cl" "\<not> registered cl"
    and nick: "nick = sanitizeNick v" "2 \<le> length nick"
      "\<not> isNickTaken lc s nick (id' cl)"
      "\<not> list_ex (\<lambda>b. includes_str (lc nick) b) BAD_NICKS"
    and t: "clients t = AList.update w (cl\<lparr>nickname := Some nick, registered := True\<rparr>) (clients s)"
  shows "wf_state lc t"
proof (rule wf_stateI)
  let ?new = "cl\<lparr>nickname := Some nick, registered := True\<rparr>"
  have valid: "valid_nick lc nick"
    using nick(2,4) sanitizeNick_length [of v] sanitizeNick_idem [of v]
    by (simp add: valid_nick_def nick(1))
  have free: "\<And>u d m. map_of (clients s) u = Some d \<Longrightarrow> u \<noteq> w \<Longrightarrow> nickname d = Some m
      \<Longrightarrow> lc m \<noteq> lc nick"
  proof -
    fix u d m
    assume d: "map_of (clients s) u = Some d" "u \<noteq> w" "nickname d = Some m"
    have "id' d \<noteq> id' cl" using wf_apart [OF wf d(1) cl(1) d(2)] by (simp add: apart_def)
    moreover have "m \<noteq> []"
      using wf_client_ok [OF wf d(1)] d(3) by (auto simp: client_ok_def dest: valid_nick_nonempty)
    moreover have "(u, d) \<in> set (clients s)" using d(1) by (rule map_of_SomeD)
    ultimately show "lc m \<noteq> lc nick"
      using nick(3) d(3) by (fastforce simp: isNickTaken_def nickLoop_iff)
  qed
  show "distinct (map fst (clients t))"
    unfolding t using wf_distinct [OF wf] by (rule distinct_update)
  show "client_ok lc c" if "map_of (clients t) u = Some c" for u c
    using that wf_client_ok [OF wf, of u c] valid
    unfolding t by (auto simp: update_conv' client_ok_def split: if_splits)
  show "apart lc c d" if h: "map_of (clients t) v' = Some c" "map_of (clients t) u = Some d" "v' \<noteq> u"
    for v' c u d
  proof -
    have vc: "((map_of (clients s))(w \<mapsto> ?new)) v' = Some c"
      and ud: "((map_of (clients s))(w \<mapsto> ?new)) u = Some d"
      using h unfolding t by (simp_all add: update_conv')
    show ?thesis
    proof (cases "v' = w")
      case True
      then have c: "c = ?new" and d: "map_of (clients s) u = Some d" and uw: "u \<noteq> w"
        using vc ud h(3) by auto
      have "id' d \<noteq> id' cl" using wf_apart [OF wf d cl(1) uw] by (simp add: apart_def)
      then show ?thesis using free [OF d uw] c by (auto simp: apart_def split: option.splits)
    next
      case False
      note vw = this
      show ?thesis
      proof (cases "u = w")
        case True
        then have d: "d = ?new" and c: "map_of (clients s) v' = Some c"
          using vc ud h(3) by auto
        have "id' c \<noteq> id' cl" using wf_apart [OF wf c cl(1) vw] by (simp add: apart_def)
        then show ?thesis using free [OF c vw] d by (auto simp: apart_def split: option.splits)
      next
        case False
        then show ?thesis using vw vc ud h(3) wf_apart [OF wf, of v' c u d] by simp
      qed
    qed
  qed
qed

lemma wf_on_message:
  assumes wf: "wf_state lc s"
  shows "wf_state lc (fst (on_message lc s w raw e))"
proof (cases raw)
  case None
  then show ?thesis using wf by (simp add: on_message_def)
next
  case (Some d)
  show ?thesis
  proof (cases "map_of (clients s) w")
    case None
    then show ?thesis using wf Some by (simp add: on_message_def)
  next
    case (Some cl)
    note cl = this
    show ?thesis
    proof (cases d)
      case (DRegister v)
      then have om: "on_message lc s w raw e = case_register lc s w cl v e"
        using \<open>raw = Some d\<close> cl by (simp add: on_message_def)
      from case_register_clients [of lc s w cl v e] show ?thesis
      proof
        assume "clients (fst (case_register lc s w cl v e)) = clients s"
        then show ?thesis unfolding om using wf by (rule wf_same_clients)
      next
        assume h: "\<not> registered cl \<and> 2 \<le> length (sanitizeNick (js_or v (JStr [])))
          \<and> \<not> isNickTaken lc s (sanitizeNick (js_or v (JStr []))) (id' cl)
          \<and> \<not> list_ex (\<lambda>b. includes_str (lc (sanitizeNick (js_or v (JStr [])))) b) BAD_NICKS
          \<and> clients (fst (case_register lc s w cl v e))
              = AList.update w (cl\<lparr>nickname := Some (sanitizeNick (js_or v (JStr []))), registered := True\<rparr>)
                  (clients s)"
        show ?thesis unfolding om
          by (rule wf_register [OF wf cl _ refl]) (use h in simp_all)
      qed
    next
      case (DChat t)
      then have "clients (fst (on_message lc s w raw e)) = clients s"
        using \<open>raw = Some d\<close> cl by (simp add: on_message_def case_chat_clients)
      then show ?thesis using wf by (rule wf_same_clients)
    next
      case (DWin n g)
      then have "clients (fst (on_message lc s w raw e)) = clients s"
        using \<open>raw = Some d\<close> cl by (simp add: on_message_def case_win_clients)
      then show ?thesis using wf by (rule wf_same_clients)
    next
      case DPing
      then show ?thesis using \<open>raw = Some d\<close> cl wf by (simp add: on_message_def)
    next
      case DOther
      then show ?thesis using \<open>raw = Some d\<close> cl wf by (simp add: on_message_def)
    qed
  qed
qed

lemma wf_initial:
  "wf_state lc \<lparr>wss_clients = [], readyState = r, clients = [], chatHistory = [],
     winHistory = [], rateLimits = Map.empty, broadcastTimer = False\<rparr>"
  by (simp add: wf_state_def)

lemma reachable_wf: "reachable lc s \<Longrightarrow> wf_state lc s"
proof (induction rule: reachable.induct)
  case (start r)
  show ?case by (rule wf_initial)
next
  case (sockets s l r)
  then show ?case by (simp add: wf_state_def)
next
  case (connection s e w a)
  have "id' d \<noteq> uuidv4 e" if "map_of (clients s) v = Some d" for v d
    using connection.hyps(2) map_of_SomeD [OF that] by fastforce
  with connection.IH show ?case by (rule wf_on_connection)
next
  case (message s w n raw e)
  then show ?case by (simp add: on_raw_message_def wf_on_message)
next
  case (close s w e)
  then show ?case by (simp add: wf_on_close)
next
  case (timer s)
  then show ?case by (simp add: on_broadcastTimer_def Let_def wf_state_def)
next
  case (memory s)
  then show ?case by (simp add: on_memory_pressure_def wf_state_def)
next
  case (sweep s now)
  then show ?case by (simp add: on_rate_sweep_def Let_def wf_state_def)
qed

subsection \<open>The example store\<close>

lemma demo_fields:
  "wss_clients demo_state = [11, 12, 13]"
  "readyState demo_state w = OPEN"
  "clients demo_state =
        [(11, \<lparr>id' = 10, nickname = Some (str ''Alex''), ip = str ''10.0.0.1'', registered = True\<rparr>),
         (12, \<lparr>id' = 20, nickname = None, ip = str ''10.0.0.2'', registered = False\<rparr>),
         (13, \<lparr>id' = 30, nickname = Some (str ''Neo''), ip = str ''10.0.0.3'', registered = True\<rparr>)]"
  "chatHistory demo_state = []"
  "winHistory demo_state = []"
  "rateLimits demo_state = Map.empty"
  "broadcastTimer demo_state = False"
  by (simp_all add: demo_state_def)

lemma demo_env_fields:
  "Date_now demo_env = 5000"
  "uuidv4 demo_env = 77"
  "formatTime1 demo_env = str ''12:00''"
  "formatTime2 demo_env = str ''12:01''"
  by (simp_all add: demo_env_def)

lemma demo_wf: "wf_state example_lower demo_state"
  by (simp add: wf_state_def demo_fields client_ok_def valid_nick_def apart_def BAD_NICKS_def
      str_def example_lower_def trim_def slice0_def isWhiteSpace_def stripped_def)

subsection \<open>Registration of a registered session\<close>

text \<open>
  C4: a register message from a session that is already registered is ignored: the
  handler sends nothing (no error, no ok, no broadcast) and returns the store as it was,
  so the nickname, the registered flag and both history buffers are unchanged.
\<close>

theorem C4_register_idempotent:
  "map_of (clients s) w = Some cl \<Longrightarrow> registered cl \<Longrightarrow>
   on_message lc s w (Some (DRegister v)) e = (s, [])"
  by (simp add: on_message_def case_register_def)

theorem C4_register_idempotent_witness:
  "on_message example_lower demo_state 11 (Some (DRegister (JStr (str ''Other'')))) demo_env = (demo_state, [])"
  using C4_register_idempotent [where lc = example_lower, of demo_state 11 _ "JStr (str ''Other'')" demo_env]
  by (simp add: demo_state_def)

subsection \<open>Duplicate nicknames\<close>

lemma taken_by_other:
  assumes wf: "wf_state lc s"
    and a: "map_of (clients s) wa = Some a" "nickname a = Some N"
    and b: "map_of (clients s) wb = Some b" "wa \<noteq> wb"
    and eq: "lc nick = lc N"
  shows "isNickTaken lc s nick (id' b)"
proof -
  have "id' a \<noteq> id' b" using wf_apart [OF wf a(1) b(1) b(2)] by (simp add: apart_def)
  moreover have "N \<noteq> []"
    using wf_client_ok [OF wf a(1)] a(2) by (auto simp: client_ok_def dest: valid_nick_nonempty)
  moreover have "(wa, a) \<in> set (clients s)" using a(1) by (rule map_of_SomeD)
  ultimately show ?thesis
    unfolding isNickTaken_def nickLoop_iff
    using a(2) eq by (intro bexI [of _ "(wa, a)"]) simp_all
qed

text \<open>
  C2, as the code has it: in a store as the handlers leave it, let session A be
  registered with nickname \<open>N\<close> and session B be unregistered, and let B send a register
  message whose nickname, after the sanitizer, equals \<open>N\<close> when both are lower-cased.
  The message is refused and the store is unchanged: B stays unregistered and without a
  nickname. The reply (sent when B's socket is open) is that the nickname is taken when
  the sanitized nickname has at least 2 code units, as it has whenever it is as long as
  \<open>N\<close>; it is the minimum-length error when the sanitized nickname is shorter, since the
  length checks run before the search for the nickname.
\<close>

theorem C2_duplicate_nickname:
  assumes wf: "wf_state lc s"
    and a: "map_of (clients s) wa = Some a" "registered a" "nickname a = Some N"
    and b: "map_of (clients s) wb = Some b" "\<not> registered b"
    and nick: "nick = sanitizeNick (js_or v (JStr []))"
    and eq: "lc nick = lc N"
  shows "on_message lc s wb (Some (DRegister v)) e
           = (s, sendTo s wb (Register_error (if length nick < 2 then MinTwoChars else NickTaken)))
     \<and> (2 \<le> length nick \<or> length nick = length N \<longrightarrow>
           on_message lc s wb (Some (DRegister v)) e
             = (s, sendTo s wb (Register_error NickTaken)))
     \<and> (readyState s wb = OPEN \<longrightarrow>
           snd (on_message lc s wb (Some (DRegister v)) e)
             = [Send wb (Register_error (if length nick < 2 then MinTwoChars else NickTaken))])
     \<and> map_of (clients (fst (on_message lc s wb (Some (DRegister v)) e))) wb = Some b
     \<and> nickname b = None"
proof -
  have valid: "valid_nick lc N"
    using wf_client_ok [OF wf a(1)] a(3) by (simp add: client_ok_def)
  have len24: "\<not> length nick > 24"
    using sanitizeNick_length [of "js_or v (JStr [])"] by (simp add: nick)
  have "wa \<noteq> wb" using a(1,2) b by auto
  then have taken: "isNickTaken lc s nick (id' b)"
    using taken_by_other [OF wf a(1) a(3) b(1) _ eq] by simp
  have res: "on_message lc s wb (Some (DRegister v)) e
           = (s, sendTo s wb (Register_error (if length nick < 2 then MinTwoChars else NickTaken)))"
    using b len24 taken by (simp add: on_message_def case_register_def Let_def flip: nick)
  have long: "length nick = length N \<Longrightarrow> 2 \<le> length nick"
    using valid by (simp add: valid_nick_def)
  have none: "nickname b = None"
    using wf_client_ok [OF wf b(1)] b(2) by (auto simp: client_ok_def split: option.splits)
  show ?thesis using res b(1) none long by (auto simp: sendTo_def)
qed

lemma example_lower_ascii:
  "example_lower (str ''Alex'') = str ''alex''"
  "example_lower (str ''alex'') = str ''alex''"
  "example_lower (str ''ALEX'') = str ''alex''"
  "example_lower (str ''Neo'') = str ''neo''"
  by (simp_all add: example_lower_def str_def)

theorem C2_duplicate_nickname_witness:
  "on_message example_lower demo_state 12 (Some (DRegister (JStr (str ''alex'')))) demo_env
     = (demo_state, [Send 12 (Register_error NickTaken)])
   \<and> on_message example_lower demo_state 12 (Some (DRegister (JStr (str '' ALEX '')))) demo_env
     = (demo_state, [Send 12 (Register_error NickTaken)])"
proof -
  let ?alex = "\<lparr>id' = 10, nickname = Some (str ''Alex''), ip = str ''10.0.0.1'', registered = True\<rparr>"
  let ?anon = "\<lparr>id' = 20, nickname = None, ip = str ''10.0.0.2'', registered = False\<rparr>"
  have a: "map_of (clients demo_state) 11 = Some ?alex" "registered ?alex"
      "nickname ?alex = Some (str ''Alex'')"
    by (simp_all add: demo_fields)
  have b: "map_of (clients demo_state) 12 = Some ?anon" "\<not> registered ?anon"
    by (simp_all add: demo_fields)
  have n1: "str ''alex'' = sanitizeNick (js_or (JStr (str ''alex'')) (JStr []))"
    by (simp add: str_def trim_def slice0_def isWhiteSpace_def stripped_def)
  have n2: "str ''ALEX'' = sanitizeNick (js_or (JStr (str '' ALEX '')) (JStr []))"
    by (simp add: str_def trim_def slice0_def isWhiteSpace_def stripped_def)
  have e1: "example_lower (str ''alex'') = example_lower (str ''Alex'')"
    by (simp only: example_lower_ascii)
  have e2: "example_lower (str ''ALEX'') = example_lower (str ''Alex'')"
    by (simp only: example_lower_ascii)
  have l1: "\<not> length (str ''alex'') < 2" and l2: "\<not> length (str ''ALEX'') < 2"
    by (simp_all add: str_def)
  show ?thesis
    using C2_duplicate_nickname [OF demo_wf a b n1 e1, of demo_env]
      C2_duplicate_nickname [OF demo_wf a b n2 e2, of demo_env] l1 l2
    by (simp add: sendTo_def demo_fields)
qed

lemma two_sockets_fields:
  "wss_clients (two_sockets n) = [11, 12]"
  "readyState (two_sockets n) w = OPEN"
  "clients (two_sockets n) =
        [(11, \<lparr>id' = 10, nickname = Some n, ip = str ''10.0.0.1'', registered = True\<rparr>),
         (12, \<lparr>id' = 20, nickname = None, ip = str ''10.0.0.2'', registered = False\<rparr>)]"
  "chatHistory (two_sockets n) = []"
  by (simp_all add: two_sockets_def)

lemma dotted_i: "example_lower [304] = [105, 775]" "example_lower [105, 775] = [105, 775]"
  by (simp_all add: example_lower_def)

lemma dotted_wf: "wf_state example_lower (two_sockets [105, 775])"
  by (simp add: wf_state_def two_sockets_fields client_ok_def valid_nick_def apart_def
      BAD_NICKS_def str_def example_lower_def trim_def slice0_def isWhiteSpace_def stripped_def)

lemma dotted_lengths: "length capital_dotted = 24" "length small_dotted = 25"
  by (simp_all add: capital_dotted_def small_dotted_def str_def)

lemma dotted_lower: "example_lower small_dotted = example_lower capital_dotted"
  by (simp add: capital_dotted_def small_dotted_def str_def example_lower_def)

lemma small_dotted_cut:
  "sanitizeNick (JStr small_dotted) = 105 # 775 # str ''aaaaaaaaaaaaaaaaaaaaaa''"
  by (simp add: small_dotted_def str_def trim_def slice0_def isWhiteSpace_def stripped_def)

lemma capital_dotted_kept: "sanitizeNick (JStr capital_dotted) = capital_dotted"
  by (simp add: capital_dotted_def str_def trim_def slice0_def isWhiteSpace_def stripped_def)

lemma capital_dotted_wf: "wf_state example_lower (two_sockets capital_dotted)"
  by (simp add: wf_state_def two_sockets_fields client_ok_def valid_nick_def apart_def
      capital_dotted_kept dotted_lengths del: sanitizeNick.simps)
    (simp add: capital_dotted_def BAD_NICKS_def str_def example_lower_def)

lemma small_dotted_registers:
  "map_of (clients (fst (on_message example_lower (two_sockets capital_dotted) 12
      (Some (DRegister (JStr small_dotted))) demo_env))) 12
   = Some \<lparr>id' = 20, nickname = Some (105 # 775 # str ''aaaaaaaaaaaaaaaaaaaaaa''),
        ip = str ''10.0.0.2'', registered = True\<rparr>"
  by (simp add: on_message_def case_register_def two_sockets_fields small_dotted_cut Let_def
      isNickTaken_def scheduleOnlineBroadcast_def update_conv' del: sanitizeNick.simps)
    (simp add: capital_dotted_def BAD_NICKS_def str_def example_lower_def)

text \<open>
  Session A is registered as i followed by U+0307, a valid nickname of 2 code units.
  Session B sends U+0130, which is the same up to letter case and has 1 code unit: the
  reply is the minimum-length error, not the duplicate error. And when A is registered
  as U+0130 followed by 23 times a, and B sends i, U+0307 and 23 times a, which is the
  same up to letter case, the sanitizer cuts B's nickname to 24 code units, which is no
  longer the same, and B is registered.
\<close>

theorem C2_duplicate_nickname_counterexample:
  "wf_state example_lower (two_sockets [105, 775])
   \<and> example_lower [304] = example_lower [105, 775]
   \<and> sanitizeNick (JStr [304]) = [304]
   \<and> on_message example_lower (two_sockets [105, 775]) 12 (Some (DRegister (JStr [304]))) demo_env
       = (two_sockets [105, 775], [Send 12 (Register_error MinTwoChars)])
   \<and> wf_state example_lower (two_sockets capital_dotted)
   \<and> example_lower small_dotted = example_lower capital_dotted
   \<and> map_of (clients (fst (on_message example_lower (two_sockets capital_dotted) 12
         (Some (DRegister (JStr small_dotted))) demo_env))) 12
       = Some \<lparr>id' = 20, nickname = Some (105 # 775 # str ''aaaaaaaaaaaaaaaaaaaaaa''),
            ip = str ''10.0.0.2'', registered = True\<rparr>"
proof -
  have s: "sanitizeNick (JStr [304]) = [304]"
    by (simp add: trim_def slice0_def isWhiteSpace_def stripped_def)
  have m: "on_message example_lower (two_sockets [105, 775]) 12 (Some (DRegister (JStr [304]))) demo_env
       = (two_sockets [105, 775], [Send 12 (Register_error MinTwoChars)])"
    by (simp add: on_message_def case_register_def two_sockets_fields sendTo_def s
        del: sanitizeNick.simps)
  have first: "wf_state example_lower (two_sockets [105, 775])
      \<and> example_lower [304] = example_lower [105, 775]
      \<and> sanitizeNick (JStr [304]) = [304]
      \<and> on_message example_lower (two_sockets [105, 775]) 12 (Some (DRegister (JStr [304]))) demo_env
          = (two_sockets [105, 775], [Send 12 (Register_error MinTwoChars)])"
    using dotted_wf s m by (simp only: dotted_i simp_thms)
  show ?thesis
    using first capital_dotted_wf dotted_lower small_dotted_registers by blast
qed

subsection \<open>Chat messages\<close>

text \<open>
  C8, as the code has it. A frame whose text has more than 8192 code units is dropped
  before it is parsed. For a chat message that is parsed: from an unregistered session
  it produces the error reply "log in first" and leaves the store as it was. From a
  registered session the rate limiter is consulted first; it writes the session's own
  entry of \<open>rateLimits\<close> and no other. When it denies, the session has an entry in its
  window with a count of 6 or more, that count is raised by one and its window start is
  kept, the error reply "too many messages" is sent and nothing else of the store
  changes. When it allows and the sanitized text is empty, as it is for a blank text of
  any length, the message is dropped: nothing is appended and nothing is sent. Otherwise
  the message is accepted, also when its text has more than 200 code units: the text is
  trimmed, cut to its first 200 code units and escaped, and one chat entry is appended
  and broadcast. A reply is sent only while the sender's socket is open.
\<close>

theorem C8_chat:
  assumes cl: "map_of (clients s) w = Some cl"
    and r0: "r0 = (case rateLimits s (id' cl) of
                     None \<Rightarrow> \<lparr>rl_count = 0, rl_t = Date_now e\<rparr>
                   | Some r \<Rightarrow> if Date_now e - rl_t r > RL_WINDOW
                              then \<lparr>rl_count = 0, rl_t = Date_now e\<rparr> else r)"
    and limits: "limits = (rateLimits s)(id' cl \<mapsto> r0\<lparr>rl_count := rl_count r0 + 1\<rparr>)"
    and ok: "ok = (rl_count r0 + 1 \<le> RL_MAX_CHAT)"
    and tx: "txt = sanitize (js_or t (JStr [])) 200"
    and msg: "msg = Chat (uuidv4 e) (id' cl) (nickname cl) txt (formatTime1 e)"
  shows "(\<not> registered cl \<longrightarrow>
            on_message lc s w (Some (DChat t)) e = (s, sendTo s w (Error LoginFirst)))
    \<and> (registered cl \<and> \<not> ok \<longrightarrow>
            on_message lc s w (Some (DChat t)) e
              = (s\<lparr>rateLimits := limits\<rparr>, sendTo s w (Error TooManyMessages)))
    \<and> (registered cl \<and> ok \<and> txt = [] \<longrightarrow>
            on_message lc s w (Some (DChat t)) e = (s\<lparr>rateLimits := limits\<rparr>, []))
    \<and> (registered cl \<and> ok \<and> txt \<noteq> [] \<longrightarrow>
            on_message lc s w (Some (DChat t)) e
              = (s\<lparr>rateLimits := limits,
                   chatHistory := pushBounded (chatHistory s) msg MAX_CHAT\<rparr>,
                 broadcastAll s msg))
    \<and> (readyState s w = OPEN \<longrightarrow> sendTo s w (Error LoginFirst) = [Send w (Error LoginFirst)]
          \<and> sendTo s w (Error TooManyMessages) = [Send w (Error TooManyMessages)])
    \<and> (\<forall>raw. t = JStr raw \<and> trim raw \<noteq> [] \<longrightarrow>
          txt = concat (map escape_unit (slice0 (trim raw) 200)) \<and> txt \<noteq> [])
    \<and> (\<forall>raw. t = JStr raw \<and> trim raw = [] \<longrightarrow> txt = [])
    \<and> (\<not> ok \<longrightarrow>
          (\<exists>r. rateLimits s (id' cl) = Some r \<and> Date_now e - rl_t r \<le> RL_WINDOW
             \<and> 6 \<le> rl_count r
             \<and> limits = (rateLimits s)(id' cl \<mapsto> r\<lparr>rl_count := rl_count r + 1\<rparr>)))
    \<and> (\<forall>i. i \<noteq> id' cl \<longrightarrow> limits i = rateLimits s i)
    \<and> on_raw_message lc s w n (Some (DChat t)) e
         = (if n > 8192 then (s, []) else on_message lc s w (Some (DChat t)) e)"
proof -
  have rate: "checkRate (rateLimits s) (Date_now e) (id' cl) = (ok, limits)"
    by (simp add: checkRate_def Let_def r0 limits ok)
  have a: "\<not> registered cl \<longrightarrow>
            on_message lc s w (Some (DChat t)) e = (s, sendTo s w (Error LoginFirst))"
    using cl by (simp add: on_message_def case_chat_def)
  have b: "registered cl \<and> \<not> ok \<longrightarrow>
            on_message lc s w (Some (DChat t)) e
              = (s\<lparr>rateLimits := limits\<rparr>, sendTo s w (Error TooManyMessages))"
    using cl rate by (simp add: on_message_def case_chat_def)
  have c: "registered cl \<and> ok \<and> txt = [] \<longrightarrow>
            on_message lc s w (Some (DChat t)) e = (s\<lparr>rateLimits := limits\<rparr>, [])"
    using cl rate by (simp add: on_message_def case_chat_def Let_def flip: tx)
  have d: "registered cl \<and> ok \<and> txt \<noteq> [] \<longrightarrow>
            on_message lc s w (Some (DChat t)) e
              = (s\<lparr>rateLimits := limits,
                   chatHistory := pushBounded (chatHistory s) msg MAX_CHAT\<rparr>,
                 broadcastAll s msg)"
    using cl rate by (simp add: on_message_def case_chat_def Let_def flip: tx msg)
  have r: "readyState s w = OPEN \<longrightarrow> sendTo s w (Error LoginFirst) = [Send w (Error LoginFirst)]
          \<and> sendTo s w (Error TooManyMessages) = [Send w (Error TooManyMessages)]"
    by (simp add: sendTo_def)
  have o: "\<forall>raw. t = JStr raw \<and> trim raw \<noteq> [] \<longrightarrow>
          txt = concat (map escape_unit (slice0 (trim raw) 200)) \<and> txt \<noteq> []"
  proof (intro allI impI, elim conjE)
    fix raw
    assume t: "t = JStr raw" and ne: "trim raw \<noteq> []"
    have eq: "txt = concat (map escape_unit (slice0 (trim raw) 200))"
      by (simp add: tx t sanitize_escape del: sanitize.simps)
    obtain c cs where "trim raw = c # cs" using ne by (cases "trim raw") auto
    then have "txt \<noteq> []" unfolding eq by (auto simp: slice0_def escape_unit_def str_def)
    with eq show "txt = concat (map escape_unit (slice0 (trim raw) 200)) \<and> txt \<noteq> []" by simp
  qed
  have blank: "\<forall>raw. t = JStr raw \<and> trim raw = [] \<longrightarrow> txt = []"
    by (simp add: tx sanitize_escape slice0_def del: sanitize.simps)
  have den: "\<not> ok \<longrightarrow>
          (\<exists>r. rateLimits s (id' cl) = Some r \<and> Date_now e - rl_t r \<le> RL_WINDOW
             \<and> 6 \<le> rl_count r
             \<and> limits = (rateLimits s)(id' cl \<mapsto> r\<lparr>rl_count := rl_count r + 1\<rparr>))"
    by (cases "rateLimits s (id' cl)") (auto simp: r0 limits ok RL_MAX_CHAT_def)
  have others: "\<forall>i. i \<noteq> id' cl \<longrightarrow> limits i = rateLimits s i"
    by (simp add: limits)
  have guard: "on_raw_message lc s w n (Some (DChat t)) e
         = (if n > 8192 then (s, []) else on_message lc s w (Some (DChat t)) e)"
    by (simp add: on_raw_message_def)
  show ?thesis using a b c d r o blank den others guard by blast
qed

theorem C8_chat_witness:
  "on_message example_lower demo_state 12 (Some (DChat (JStr (str ''hi'')))) demo_env
     = (demo_state, [Send 12 (Error LoginFirst)])
   \<and> on_message example_lower (demo_state\<lparr>rateLimits := [10 \<mapsto> \<lparr>rl_count = 6, rl_t = 0\<rparr>]\<rparr>) 11
        (Some (DChat (JStr (str ''hi'')))) demo_env
     = (demo_state\<lparr>rateLimits := [10 \<mapsto> \<lparr>rl_count = 7, rl_t = 0\<rparr>]\<rparr>,
        [Send 11 (Error TooManyMessages)])
   \<and> on_message example_lower demo_state 11 (Some (DChat (JStr (str ''  '')))) demo_env
     = (demo_state\<lparr>rateLimits := [10 \<mapsto> \<lparr>rl_count = 1, rl_t = 5000\<rparr>]\<rparr>, [])
   \<and> on_raw_message example_lower demo_state 11 8193 (Some (DChat (JStr (str ''hi'')))) demo_env
     = (demo_state, [])"
proof -
  let ?alex = "\<lparr>id' = 10, nickname = Some (str ''Alex''), ip = str ''10.0.0.1'', registered = True\<rparr>"
  let ?anon = "\<lparr>id' = 20, nickname = None, ip = str ''10.0.0.2'', registered = False\<rparr>"
  let ?lim = "demo_state\<lparr>rateLimits := [10 \<mapsto> \<lparr>rl_count = 6, rl_t = 0\<rparr>]\<rparr>"
  have cl12: "map_of (clients demo_state) 12 = Some ?anon" by (simp add: demo_fields)
  have cl11: "map_of (clients demo_state) 11 = Some ?alex" by (simp add: demo_fields)
  have cl11': "map_of (clients ?lim) 11 = Some ?alex" by (simp add: demo_fields)
  have blank: "sanitize (JStr (str ''  '')) 200 = []"
    by (simp add: str_def trim_def slice0_def isWhiteSpace_def replace_all_def)
  have a: "on_message example_lower demo_state 12 (Some (DChat (JStr (str ''hi'')))) demo_env
      = (demo_state, sendTo demo_state 12 (Error LoginFirst))"
    using C8_chat [where lc = example_lower and e = demo_env and t = "JStr (str ''hi'')",
        OF cl12 refl refl refl refl refl, THEN conjunct1]
    by simp
  have b: "on_message example_lower ?lim 11 (Some (DChat (JStr (str ''hi'')))) demo_env
      = (?lim\<lparr>rateLimits := [10 \<mapsto> \<lparr>rl_count = 7, rl_t = 0\<rparr>]\<rparr>,
         sendTo ?lim 11 (Error TooManyMessages))"
    using C8_chat [where lc = example_lower and e = demo_env and t = "JStr (str ''hi'')",
        OF cl11' refl refl refl refl refl, THEN conjunct2, THEN conjunct1]
    by (simp add: demo_env_fields RL_WINDOW_def RL_MAX_CHAT_def)
  have c: "on_message example_lower demo_state 11 (Some (DChat (JStr (str ''  '')))) demo_env
      = (demo_state\<lparr>rateLimits := [10 \<mapsto> \<lparr>rl_count = 1, rl_t = 5000\<rparr>]\<rparr>, [])"
    using C8_chat [where lc = example_lower and e = demo_env and t = "JStr (str ''  '')",
        OF cl11 refl refl refl refl refl, THEN conjunct2, THEN conjunct2, THEN conjunct1] blank
    by (simp add: demo_fields demo_env_fields RL_MAX_CHAT_def del: sanitize.simps)
  have g: "on_raw_message example_lower demo_state 11 8193 (Some (DChat (JStr (str ''hi'')))) demo_env
      = (demo_state, [])"
    by (simp add: on_raw_message_def)
  show ?thesis unfolding a b c g by (simp add: sendTo_def demo_fields)
qed

lemma sanitize_replicate_plain:
  "\<not> isWhiteSpace c \<Longrightarrow> c \<noteq> 60 \<and> c \<noteq> 62 \<and> c \<noteq> 34 \<and> c \<noteq> 39 \<Longrightarrow>
   sanitize (JStr (replicate n c)) m = replicate (min m n) c"
  unfolding sanitize_escape
  using escape_plain [of "replicate (min m n) c"]
  by (simp add: trim_replicate slice0_def)

lemma chat_201: "sanitize (JStr (replicate 201 97)) 200 = replicate 200 97"
proof -
  have "sanitize (JStr (replicate 201 97)) 200 = replicate (min 200 201) 97"
    by (rule sanitize_replicate_plain) (simp_all add: isWhiteSpace_def)
  then show ?thesis by simp
qed

theorem C8_chat_counterexample:
  "length (replicate 201 (97::nat)) = 201
   \<and> chatHistory (fst (on_message example_lower demo_state 11 (Some (DChat (JStr (replicate 201 97)))) demo_env))
       = [Chat 77 10 (Some (str ''Alex'')) (replicate 200 97) (str ''12:00'')]
   \<and> snd (on_message example_lower demo_state 11 (Some (DChat (JStr (replicate 201 97)))) demo_env)
       = [Send 11 (Chat 77 10 (Some (str ''Alex'')) (replicate 200 97) (str ''12:00'')),
          Send 12 (Chat 77 10 (Some (str ''Alex'')) (replicate 200 97) (str ''12:00'')),
          Send 13 (Chat 77 10 (Some (str ''Alex'')) (replicate 200 97) (str ''12:00''))]
   \<and> rateLimits (demo_state\<lparr>rateLimits := [10 \<mapsto> \<lparr>rl_count = 6, rl_t = 0\<rparr>]\<rparr>) 10
       = Some \<lparr>rl_count = 6, rl_t = 0\<rparr>
   \<and> rateLimits (fst (on_message example_lower (demo_state\<lparr>rateLimits := [10 \<mapsto> \<lparr>rl_count = 6, rl_t = 0\<rparr>]\<rparr>) 11
        (Some (DChat (JStr (str ''hi'')))) demo_env)) 10
       = Some \<lparr>rl_count = 7, rl_t = 0\<rparr>"
proof -
  have over: "on_message example_lower demo_state 11 (Some (DChat (JStr (replicate 201 97)))) demo_env
      = (demo_state\<lparr>rateLimits := [10 \<mapsto> \<lparr>rl_count = 1, rl_t = 5000\<rparr>],
           chatHistory := [Chat 77 10 (Some (str ''Alex'')) (replicate 200 97) (str ''12:00'')]\<rparr>,
         broadcastAll demo_state (Chat 77 10 (Some (str ''Alex'')) (replicate 200 97) (str ''12:00'')))"
    by (simp add: on_message_def case_chat_def chat_201 checkRate_def RL_MAX_CHAT_def
        pushBounded_def MAX_CHAT_def demo_fields demo_env_fields Let_def
        del: sanitize.simps)
  have bc: "broadcastAll demo_state (Chat 77 10 (Some (str ''Alex'')) (replicate 200 97) (str ''12:00''))
      = [Send 11 (Chat 77 10 (Some (str ''Alex'')) (replicate 200 97) (str ''12:00'')),
          Send 12 (Chat 77 10 (Some (str ''Alex'')) (replicate 200 97) (str ''12:00'')),
          Send 13 (Chat 77 10 (Some (str ''Alex'')) (replicate 200 97) (str ''12:00''))]"
    by (simp add: broadcastAll_def broadcast_def demo_fields)
  have lim: "rateLimits (fst (on_message example_lower (demo_state\<lparr>rateLimits := [10 \<mapsto> \<lparr>rl_count = 6, rl_t = 0\<rparr>]\<rparr>) 11
        (Some (DChat (JStr (str ''hi'')))) demo_env)) 10
       = Some \<lparr>rl_count = 7, rl_t = 0\<rparr>"
    by (simp add: on_message_def case_chat_def checkRate_def RL_MAX_CHAT_def RL_WINDOW_def
        demo_fields demo_env_fields)
  show ?thesis by (simp add: over bc lim demo_fields)
qed

subsection \<open>Win events\<close>

text \<open>
  C5, as the code has it: for a win message from a registered session, let \<open>amount\<close> be
  the floor of the numeric value of the amount field (0 when the field is not numeric).
  When \<open>amount \<le> 0\<close> the message is dropped: nothing is appended and nothing is sent.
  When \<open>0 < amount \<le> 1000000\<close> exactly one win entry, carrying \<open>amount\<close>, is appended to
  the win buffer and broadcast; when moreover \<open>amount \<ge> 500\<close> exactly one system message
  is appended to the chat buffer and broadcast, and below 500 the chat buffer is
  unchanged.
\<close>

theorem C5_win_amount:
  assumes cl: "map_of (clients s) w = Some cl" "registered cl"
    and amount: "amount = Math_floor (or0 n)"
    and game: "game = sanitize (js_or g (JStr default_game)) 40"
    and win: "win = Win (id' cl) (nickname cl) amount game (formatTime1 e)"
    and sys: "sys = System_message (BigWin (nickname cl) amount game) (formatTime2 e)"
  shows "(num_le amount 0 \<longrightarrow> on_message lc s w (Some (DWin n g)) e = (s, []))
    \<and> (n = NaN \<longrightarrow> on_message lc s w (Some (DWin n g)) e = (s, []))
    \<and> (num_gt amount 0 \<and> num_le amount 1000000 \<and> \<not> num_ge amount 500 \<longrightarrow>
          on_message lc s w (Some (DWin n g)) e =
            (s\<lparr>winHistory := pushBounded (winHistory s) win MAX_WINS\<rparr>, broadcastAll s win))
    \<and> (num_gt amount 0 \<and> num_le amount 1000000 \<and> num_ge amount 500 \<longrightarrow>
          on_message lc s w (Some (DWin n g)) e =
            (s\<lparr>winHistory := pushBounded (winHistory s) win MAX_WINS,
               chatHistory := pushBounded (chatHistory s) sys MAX_CHAT\<rparr>,
             broadcastAll s win @ broadcastAll s sys))"
proof -
  have gt_le: "num_gt amount 0 \<Longrightarrow> \<not> num_le amount 0" by (cases amount) auto
  have le_gt: "num_le amount 1000000 \<Longrightarrow> \<not> num_gt amount 1000000" by (cases amount) auto
  have nan: "n = NaN \<Longrightarrow> num_le amount 0" by (simp add: amount or0_def)
  have drop: "num_le amount 0 \<longrightarrow> on_message lc s w (Some (DWin n g)) e = (s, [])"
    using cl by (simp add: on_message_def case_win_def amount Let_def)
  have acc_small: "num_gt amount 0 \<and> num_le amount 1000000 \<and> \<not> num_ge amount 500 \<longrightarrow>
          on_message lc s w (Some (DWin n g)) e =
            (s\<lparr>winHistory := pushBounded (winHistory s) win MAX_WINS\<rparr>, broadcastAll s win)"
    using cl gt_le le_gt
    by (simp add: on_message_def case_win_def Let_def flip: amount game win)
  have acc_big: "num_gt amount 0 \<and> num_le amount 1000000 \<and> num_ge amount 500 \<longrightarrow>
          on_message lc s w (Some (DWin n g)) e =
            (s\<lparr>winHistory := pushBounded (winHistory s) win MAX_WINS,
               chatHistory := pushBounded (chatHistory s) sys MAX_CHAT\<rparr>,
             broadcastAll s win @ broadcastAll s sys)"
    using cl gt_le le_gt
    by (simp add: on_message_def case_win_def Let_def flip: amount game win sys)
  show ?thesis using drop nan acc_small acc_big by blast
qed

theorem C5_win_amount_witness:
  "on_message example_lower demo_state 11 (Some (DWin (Finite 0) (JStr (str ''Slots'')))) demo_env = (demo_state, [])
   \<and> on_message example_lower demo_state 11 (Some (DWin NaN (JStr (str ''Slots'')))) demo_env = (demo_state, [])
   \<and> winHistory (fst (on_message example_lower demo_state 11 (Some (DWin (Finite 1) (JStr (str ''Slots'')))) demo_env))
       = [Win 10 (Some (str ''Alex'')) (Finite 1) (str ''Slots'') (str ''12:00'')]
   \<and> chatHistory (fst (on_message example_lower demo_state 11 (Some (DWin (Finite 1) (JStr (str ''Slots'')))) demo_env)) = []
   \<and> winHistory (fst (on_message example_lower demo_state 11 (Some (DWin (Finite 500) (JStr (str ''Slots'')))) demo_env))
       = [Win 10 (Some (str ''Alex'')) (Finite 500) (str ''Slots'') (str ''12:00'')]
   \<and> chatHistory (fst (on_message example_lower demo_state 11 (Some (DWin (Finite 500) (JStr (str ''Slots'')))) demo_env))
       = [System_message (BigWin (Some (str ''Alex'')) (Finite 500) (str ''Slots'')) (str ''12:01'')]"
  using
    C5_win_amount [where lc = example_lower, of demo_state 11 "the (map_of (clients demo_state) 11)" "Finite 0" "Finite 0"
      _ "JStr (str ''Slots'')" _ demo_env, OF _ _ _ refl refl refl]
    C5_win_amount [where lc = example_lower, of demo_state 11 "the (map_of (clients demo_state) 11)" "Finite 0" NaN
      _ "JStr (str ''Slots'')" _ demo_env, OF _ _ _ refl refl refl]
    C5_win_amount [where lc = example_lower, of demo_state 11 "the (map_of (clients demo_state) 11)" "Finite 1" "Finite 1"
      _ "JStr (str ''Slots'')" _ demo_env, OF _ _ _ refl refl refl]
    C5_win_amount [where lc = example_lower, of demo_state 11 "the (map_of (clients demo_state) 11)" "Finite 500" "Finite 500"
      _ "JStr (str ''Slots'')" _ demo_env, OF _ _ _ refl refl refl]
  by (simp add: demo_state_def demo_env_def or0_def pushBounded_def MAX_WINS_def MAX_CHAT_def
      js_or_def str_def trim_def slice0_def isWhiteSpace_def replace_all_def)

theorem C5_win_amount_counterexample:
  "on_message example_lower demo_state 11 (Some (DWin (Finite (1 / 2)) (JStr (str ''Slots'')))) demo_env
     = (demo_state, [])"
  by (simp add: demo_state_def on_message_def case_win_def or0_def)

subsection \<open>Admission\<close>

text \<open>
  C6: the connection handler rejects a new connection exactly when the number of
  sockets of the server, the new one counted, exceeds the hard cap of 500. A rejected
  socket is closed with the status 1013 and the reason "Server full"; the session
  registry, the histories and the rate limits are what they were, no timer is set and
  nothing is sent to it, so it gets no init snapshot. An admitted socket gets a fresh
  unregistered session and an init frame.
\<close>

theorem C6_admit:
  "(MAX_CLIENTS = 500)
   \<and> ((MAX_CLIENTS < length (wss_clients s))
        = (snd (on_connection s w e a) = [Close w 1013 (str ''Server full'')]))
   \<and> (MAX_CLIENTS < length (wss_clients s) \<longrightarrow>
        on_connection s w e a = (ws_close s w, [Close w 1013 (str ''Server full'')])
        \<and> clients (fst (on_connection s w e a)) = clients s
        \<and> rateLimits (fst (on_connection s w e a)) = rateLimits s
        \<and> chatHistory (fst (on_connection s w e a)) = chatHistory s
        \<and> winHistory (fst (on_connection s w e a)) = winHistory s
        \<and> broadcastTimer (fst (on_connection s w e a)) = broadcastTimer s
        \<and> (\<forall>f. Send w f \<notin> set (snd (on_connection s w e a))))
   \<and> (length (wss_clients s) \<le> MAX_CLIENTS \<longrightarrow>
        map_of (clients (fst (on_connection s w e a))) w
          = Some \<lparr>id' = uuidv4 e, nickname = None, ip = a, registered = False\<rparr>
        \<and> snd (on_connection s w e a)
          = sendTo s w (Init (uuidv4 e) (slice_last (chatHistory s) 25)
              (slice_last (winHistory s) 15) (getOnlineCount s)))"
proof -
  have rej: "MAX_CLIENTS < length (wss_clients s) \<Longrightarrow>
      on_connection s w e a = (ws_close s w, [Close w 1013 (str ''Server full'')])"
    by (simp add: on_connection_def)
  have acc: "length (wss_clients s) \<le> MAX_CLIENTS \<Longrightarrow>
      snd (on_connection s w e a)
          = sendTo s w (Init (uuidv4 e) (slice_last (chatHistory s) 25)
              (slice_last (winHistory s) 15) (getOnlineCount s))"
    by (simp add: on_connection_def Let_def sendTo_def getOnlineCount_def)
  have acc_cl: "length (wss_clients s) \<le> MAX_CLIENTS \<Longrightarrow>
      map_of (clients (fst (on_connection s w e a))) w
          = Some \<lparr>id' = uuidv4 e, nickname = None, ip = a, registered = False\<rparr>"
    by (simp add: on_connection_def Let_def scheduleOnlineBroadcast_def update_conv')
  have iff: "(MAX_CLIENTS < length (wss_clients s))
        = (snd (on_connection s w e a) = [Close w 1013 (str ''Server full'')])"
  proof (cases "MAX_CLIENTS < length (wss_clients s)")
    case True
    then show ?thesis by (simp add: rej)
  next
    case False
    then have "snd (on_connection s w e a) \<noteq> [Close w 1013 (str ''Server full'')]"
      using acc by (simp add: sendTo_def)
    with False show ?thesis by simp
  qed
  have same: "clients (ws_close s w) = clients s \<and> rateLimits (ws_close s w) = rateLimits s
      \<and> chatHistory (ws_close s w) = chatHistory s \<and> winHistory (ws_close s w) = winHistory s
      \<and> broadcastTimer (ws_close s w) = broadcastTimer s"
    by (simp add: ws_close_def)
  show ?thesis
    using rej acc acc_cl iff same by (auto simp: MAX_CLIENTS_def)
qed

theorem C6_admit_witness:
  "snd (on_connection (demo_state\<lparr>wss_clients := [0..<501]\<rparr>) 500 demo_env (str ''10.0.0.9''))
     = [Close 500 1013 (str ''Server full'')]
   \<and> clients (fst (on_connection (demo_state\<lparr>wss_clients := [0..<501]\<rparr>) 500 demo_env (str ''10.0.0.9'')))
     = clients demo_state
   \<and> snd (on_connection (demo_state\<lparr>wss_clients := [11, 12, 13, 14]\<rparr>) 14 demo_env (str ''10.0.0.9''))
     = [Send 14 (Init 77 [] [] 4)]"
proof -
  let ?full = "demo_state\<lparr>wss_clients := [0..<501]\<rparr>"
  let ?four = "demo_state\<lparr>wss_clients := [11, 12, 13, 14]\<rparr>"
  have big: "MAX_CLIENTS < length (wss_clients ?full)"
    by (simp add: MAX_CLIENTS_def del: upt_rec_numeral)
  have small: "length (wss_clients ?four) \<le> MAX_CLIENTS"
    by (simp add: MAX_CLIENTS_def)
  have "snd (on_connection ?full 500 demo_env (str ''10.0.0.9''))
          = [Close 500 1013 (str ''Server full'')]
      \<and> clients (fst (on_connection ?full 500 demo_env (str ''10.0.0.9''))) = clients ?full"
    using C6_admit [of ?full 500 demo_env "str ''10.0.0.9''"] big by blast
  moreover have "clients ?full = clients demo_state" by simp
  moreover have "snd (on_connection ?four 14 demo_env (str ''10.0.0.9''))
      = sendTo ?four 14 (Init (uuidv4 demo_env) (slice_last (chatHistory ?four) 25)
              (slice_last (winHistory ?four) 15) (getOnlineCount ?four))"
    using C6_admit [of ?four 14 demo_env "str ''10.0.0.9''"] small by blast
  moreover have "sendTo ?four 14 (Init (uuidv4 demo_env) (slice_last (chatHistory ?four) 25)
              (slice_last (winHistory ?four) 15) (getOnlineCount ?four)) = [Send 14 (Init 77 [] [] 4)]"
    by (simp add: demo_state_def demo_env_def sendTo_def slice_last_def getOnlineCount_def)
  ultimately show ?thesis by (simp only:)
qed

subsection \<open>Disconnect of a registered session\<close>

lemma on_close_registered:
  assumes "map_of (clients s) w = Some cl" "registered cl" "nickname cl = Some n" "n \<noteq> []"
  shows "on_close s w e =
     (s\<lparr>chatHistory := pushBounded (chatHistory s) (System_message (LeftCasino n) (formatTime1 e)) MAX_CHAT,
        rateLimits := (rateLimits s)(id' cl := None),
        clients := AList.delete w (clients s),
        broadcastTimer := True\<rparr>,
      map (\<lambda>x. Send x (System_message (LeftCasino n) (formatTime1 e)))
        (filter (\<lambda>x. x \<noteq> w \<and> readyState s x = OPEN) (wss_clients s)))"
  using assms by (simp add: on_close_def Let_def scheduleOnlineBroadcast_eq broadcast_def)

text \<open>
  C9: in a store as the handlers leave it, when the socket of a session registered as
  \<open>n\<close> closes, exactly one departure message is appended to the chat buffer and sent
  to every open socket other than the closed one, to which nothing is sent; the entry of
  the session in \<open>clients\<close> and its entry in \<open>rateLimits\<close> are deleted. A connection
  admitted afterwards that registers \<open>n\<close> succeeds: its session is registered with the
  nickname \<open>n\<close> and gets the ok reply, and the join message is broadcast.
\<close>

theorem C9_disconnect:
  assumes wf: "wf_state lc s"
    and cl: "map_of (clients s) w = Some cl" "registered cl" "nickname cl = Some n"
    and bye: "bye = System_message (LeftCasino n) (formatTime1 e)"
    and s1: "s1 = fst (on_close s w e)"
    and s2: "s2 = fst (on_connection s1 w2 e2 a)" "length (wss_clients s1) \<le> MAX_CLIENTS"
  shows "chatHistory s1 = pushBounded (chatHistory s) bye MAX_CHAT
     \<and> snd (on_close s w e)
         = map (\<lambda>x. Send x bye) (filter (\<lambda>x. x \<noteq> w \<and> readyState s x = OPEN) (wss_clients s))
     \<and> (\<forall>f. Send w f \<notin> set (snd (on_close s w e)))
     \<and> map_of (clients s1) w = None
     \<and> rateLimits s1 (id' cl) = None
     \<and> map_of (clients (fst (on_message lc s2 w2 (Some (DRegister (JStr n))) e3))) w2
         = Some \<lparr>id' = uuidv4 e2, nickname = Some n, ip = a, registered = True\<rparr>
     \<and> snd (on_message lc s2 w2 (Some (DRegister (JStr n))) e3)
         = sendTo s2 w2 (Register_ok n (uuidv4 e2))
           @ broadcastAll s2 (System_message (Joined n) (formatTime1 e3))"
proof -
  let ?new = "\<lparr>id' = uuidv4 e2, nickname = None, ip = a, registered = False\<rparr>"
  have valid: "valid_nick lc n"
    using wf_client_ok [OF wf cl(1)] cl(3) by (simp add: client_ok_def)
  then have ne: "n \<noteq> []" by (rule valid_nick_nonempty)
  note close = on_close_registered [OF cl ne, of e]
  have c1: "clients s1 = AList.delete w (clients s)" by (simp add: s1 close)
  have hist: "chatHistory s1 = pushBounded (chatHistory s) bye MAX_CHAT"
    by (simp add: s1 close bye)
  have out: "snd (on_close s w e)
      = map (\<lambda>x. Send x bye) (filter (\<lambda>x. x \<noteq> w \<and> readyState s x = OPEN) (wss_clients s))"
    by (simp add: close bye)
  have nosend: "\<forall>f. Send w f \<notin> set (snd (on_close s w e))"
    unfolding out by auto
  have gone: "map_of (clients s1) w = None" by (simp add: c1 delete_conv')
  have rl: "rateLimits s1 (id' cl) = None" by (simp add: s1 close)
  have c2: "clients s2 = AList.update w2 ?new (AList.delete w (clients s))"
    using s2(2) by (simp add: s2(1) on_connection_def Let_def c1)
  have m2: "map_of (clients s2) = ((map_of (clients s))(w := None))(w2 \<mapsto> ?new)"
    by (simp add: c2 update_conv' delete_conv')
  have d2: "distinct (map fst (clients s2))"
    unfolding c2 by (intro distinct_update distinct_delete wf_distinct [OF wf])
  have free: "\<not> isNickTaken lc s2 n (id' ?new)"
  proof
    assume "isNickTaken lc s2 n (id' ?new)"
    then obtain u d m where ud: "(u, d) \<in> set (clients s2)"
      and m: "nickname d = Some m" "lc m = lc n"
      by (auto simp: isNickTaken_def nickLoop_iff)
    from ud d2 have "map_of (clients s2) u = Some d" by simp
    then have "u \<noteq> w" "map_of (clients s) u = Some d"
      using m(1) unfolding m2 by (auto split: if_splits)
    then have "apart lc d cl" using wf_apart [OF wf _ cl(1)] by blast
    then show False using m cl(3) by (simp add: apart_def)
  qed
  have nick: "n = sanitizeNick (js_or (JStr n) (JStr []))"
    using valid by (simp add: valid_nick_def)
  have reg: "case_register lc s2 w2 ?new (JStr n) e3 =
     (s2\<lparr>clients := AList.update w2 (?new\<lparr>nickname := Some n, registered := True\<rparr>) (clients s2),
        chatHistory := pushBounded (chatHistory s2) (System_message (Joined n) (formatTime1 e3)) MAX_CHAT,
        broadcastTimer := True\<rparr>,
      sendTo s2 w2 (Register_ok n (id' ?new))
        @ broadcastAll s2 (System_message (Joined n) (formatTime1 e3)))"
    using valid by (intro case_register_success nick free) (simp_all add: valid_nick_def)
  have om: "on_message lc s2 w2 (Some (DRegister (JStr n))) e3 = case_register lc s2 w2 ?new (JStr n) e3"
    by (simp add: on_message_def m2)
  have again: "map_of (clients (fst (on_message lc s2 w2 (Some (DRegister (JStr n))) e3))) w2
         = Some \<lparr>id' = uuidv4 e2, nickname = Some n, ip = a, registered = True\<rparr>"
    by (simp add: om reg update_conv')
  have reply: "snd (on_message lc s2 w2 (Some (DRegister (JStr n))) e3)
         = sendTo s2 w2 (Register_ok n (uuidv4 e2))
           @ broadcastAll s2 (System_message (Joined n) (formatTime1 e3))"
    by (simp add: om reg)
  show ?thesis using hist out nosend gone rl again reply by blast
qed

theorem C9_disconnect_witness:
  "snd (on_close demo_state 11 demo_env)
     = [Send 12 (System_message (LeftCasino (str ''Alex'')) (str ''12:00'')),
        Send 13 (System_message (LeftCasino (str ''Alex'')) (str ''12:00''))]
   \<and> chatHistory (fst (on_close demo_state 11 demo_env))
     = [System_message (LeftCasino (str ''Alex'')) (str ''12:00'')]
   \<and> map_of (clients (fst (on_close demo_state 11 demo_env))) 11 = None
   \<and> map_of (clients (fst (on_message example_lower
        (fst (on_connection (fst (on_close demo_state 11 demo_env)) 14 demo_env (str ''10.0.0.4'')))
        14 (Some (DRegister (JStr (str ''Alex'')))) demo_env))) 14
     = Some \<lparr>id' = 77, nickname = Some (str ''Alex''), ip = str ''10.0.0.4'', registered = True\<rparr>"
proof -
  let ?alex = "\<lparr>id' = 10, nickname = Some (str ''Alex''), ip = str ''10.0.0.1'', registered = True\<rparr>"
  have cl: "map_of (clients demo_state) 11 = Some ?alex" "registered ?alex"
      "nickname ?alex = Some (str ''Alex'')"
    by (simp_all add: demo_fields)
  have "wss_clients (fst (on_close demo_state 11 demo_env)) = wss_clients demo_state"
    by (simp add: on_close_registered [OF cl] str_def)
  then have len: "length (wss_clients (fst (on_close demo_state 11 demo_env))) \<le> MAX_CLIENTS"
    by (simp add: demo_fields MAX_CLIENTS_def)
  show ?thesis
    using C9_disconnect [where lc = example_lower and ?w2.0 = 14 and ?e2.0 = demo_env and a = "str ''10.0.0.4''"
        and ?e3.0 = demo_env, OF demo_wf cl refl refl refl len]
    by (simp add: demo_fields demo_env_fields pushBounded_def MAX_CHAT_def)
qed

subsection \<open>Who receives a broadcast\<close>

lemma broadcast_all_open:
  "x \<in> set (wss_clients s) \<Longrightarrow> readyState s x = OPEN \<Longrightarrow> Send x f \<in> set (broadcastAll s f)"
  by (auto simp: broadcastAll_def broadcast_def)

lemma broadcast_excludes: "Send x f \<notin> set (broadcast s g (Some x))"
  by (auto simp: broadcast_def)

lemma on_close_actions:
  "\<exists>g. snd (on_close s w e) = [] \<or> snd (on_close s w e) = broadcast s g (Some w)"
  by (auto simp: on_close_def Let_def scheduleOnlineBroadcast_def broadcast_def
      split: option.splits)

lemma num_gt_not_le: "num_gt a q \<Longrightarrow> \<not> num_le a q"
  by (cases a) auto

lemma num_le_not_gt: "num_le a q \<Longrightarrow> \<not> num_gt a q"
  by (cases a) auto

text \<open>
  C10: an accepted chat or win message is broadcast with no socket excluded: the chat
  frame, the win frame and the big-win system message are sent to every open socket of
  the server, the sender's own included when it is open. The handler of a disconnect is
  the one that excludes a socket: it sends nothing to the socket that closed.
\<close>

theorem C10_broadcast_echo:
  assumes cl: "map_of (clients s) w = Some cl" "registered cl"
    and x: "x \<in> set (wss_clients s)" "readyState s x = OPEN"
    and rate: "checkRate (rateLimits s) (Date_now e) (id' cl) = (ok, limits)"
    and tx: "txt = sanitize (js_or t (JStr [])) 200"
    and amount: "amount = Math_floor (or0 n)"
    and game: "game = sanitize (js_or g (JStr default_game)) 40"
  shows "(ok \<and> txt \<noteq> [] \<longrightarrow>
           snd (on_message lc s w (Some (DChat t)) e)
             = broadcastAll s (Chat (uuidv4 e) (id' cl) (nickname cl) txt (formatTime1 e))
           \<and> Send x (Chat (uuidv4 e) (id' cl) (nickname cl) txt (formatTime1 e))
               \<in> set (snd (on_message lc s w (Some (DChat t)) e)))
    \<and> (num_gt amount 0 \<and> num_le amount 1000000 \<longrightarrow>
           Send x (Win (id' cl) (nickname cl) amount game (formatTime1 e))
               \<in> set (snd (on_message lc s w (Some (DWin n g)) e))
           \<and> (num_ge amount 500 \<longrightarrow>
                Send x (System_message (BigWin (nickname cl) amount game) (formatTime2 e))
                  \<in> set (snd (on_message lc s w (Some (DWin n g)) e))))
    \<and> (\<forall>f. Send w f \<notin> set (snd (on_close s w e)))"
proof -
  let ?chat = "Chat (uuidv4 e) (id' cl) (nickname cl) txt (formatTime1 e)"
  let ?win = "Win (id' cl) (nickname cl) amount game (formatTime1 e)"
  let ?sys = "System_message (BigWin (nickname cl) amount game) (formatTime2 e)"
  have chat: "ok \<and> txt \<noteq> [] \<longrightarrow>
      snd (on_message lc s w (Some (DChat t)) e) = broadcastAll s ?chat"
    using cl rate by (simp add: on_message_def case_chat_def Let_def flip: tx)
  have inchat: "Send x ?chat \<in> set (broadcastAll s ?chat)"
    using x by (rule broadcast_all_open)
  have win_small: "num_gt amount 0 \<and> num_le amount 1000000 \<and> \<not> num_ge amount 500 \<longrightarrow>
      snd (on_message lc s w (Some (DWin n g)) e) = broadcastAll s ?win"
    using cl num_gt_not_le [of amount 0] num_le_not_gt [of amount 1000000]
    by (simp add: on_message_def case_win_def Let_def flip: amount game)
  have win_big: "num_gt amount 0 \<and> num_le amount 1000000 \<and> num_ge amount 500 \<longrightarrow>
      snd (on_message lc s w (Some (DWin n g)) e) = broadcastAll s ?win @ broadcastAll s ?sys"
    using cl num_gt_not_le [of amount 0] num_le_not_gt [of amount 1000000]
    by (simp add: on_message_def case_win_def Let_def flip: amount game)
  have inwin: "Send x ?win \<in> set (broadcastAll s ?win)"
    using x by (rule broadcast_all_open)
  have insys: "Send x ?sys \<in> set (broadcastAll s ?sys)"
    using x by (rule broadcast_all_open)
  have close: "\<forall>f. Send w f \<notin> set (snd (on_close s w e))"
    using on_close_actions [of s w e] broadcast_excludes [of w _ s] by auto
  have wins: "num_gt amount 0 \<and> num_le amount 1000000 \<longrightarrow>
           Send x ?win \<in> set (snd (on_message lc s w (Some (DWin n g)) e))
           \<and> (num_ge amount 500 \<longrightarrow> Send x ?sys \<in> set (snd (on_message lc s w (Some (DWin n g)) e)))"
    using win_small win_big inwin insys by (cases "num_ge amount 500") auto
  show ?thesis using chat inchat wins close by simp
qed

theorem C10_broadcast_echo_witness:
  "Send 11 (Chat 77 10 (Some (str ''Alex'')) (str ''hi'') (str ''12:00''))
     \<in> set (snd (on_message example_lower demo_state 11 (Some (DChat (JStr (str ''hi'')))) demo_env))
   \<and> Send 11 (Win 10 (Some (str ''Alex'')) (Finite 500) (str ''Slots'') (str ''12:00''))
     \<in> set (snd (on_message example_lower demo_state 11 (Some (DWin (Finite 500) (JStr (str ''Slots'')))) demo_env))
   \<and> Send 11 (System_message (BigWin (Some (str ''Alex'')) (Finite 500) (str ''Slots'')) (str ''12:01''))
     \<in> set (snd (on_message example_lower demo_state 11 (Some (DWin (Finite 500) (JStr (str ''Slots'')))) demo_env))
   \<and> Send 11 (System_message (LeftCasino (str ''Alex'')) (str ''12:00''))
     \<notin> set (snd (on_close demo_state 11 demo_env))"
proof -
  let ?alex = "\<lparr>id' = 10, nickname = Some (str ''Alex''), ip = str ''10.0.0.1'', registered = True\<rparr>"
  have cl: "map_of (clients demo_state) 11 = Some ?alex" "registered ?alex"
    by (simp_all add: demo_fields)
  have x: "11 \<in> set (wss_clients demo_state)" "readyState demo_state 11 = OPEN"
    by (simp_all add: demo_fields)
  have rate: "checkRate (rateLimits demo_state) (Date_now demo_env) (id' ?alex)
      = (True, [10 \<mapsto> \<lparr>rl_count = 1, rl_t = 5000\<rparr>])"
    by (simp add: checkRate_def demo_fields demo_env_fields RL_MAX_CHAT_def)
  have tx: "str ''hi'' = sanitize (js_or (JStr (str ''hi'')) (JStr [])) 200"
    by (simp add: js_or_def str_def trim_def slice0_def isWhiteSpace_def replace_all_def)
  have amount: "Finite 500 = Math_floor (or0 (Finite 500))"
    by (simp add: or0_def)
  have game: "str ''Slots'' = sanitize (js_or (JStr (str ''Slots'')) (JStr default_game)) 40"
    by (simp add: js_or_def str_def trim_def slice0_def isWhiteSpace_def replace_all_def)
  show ?thesis
    using C10_broadcast_echo [where lc = example_lower, OF cl x rate tx amount game]
    by (simp add: demo_env_fields demo_fields str_def broadcastAll_def broadcast_def)
qed

end
